theory Spec2Isabelle
  imports Complex_Main
begin

section \<open>DarumaOtoshi2018: barriers and level\<close>

text \<open>
  The embedding follows \<^verbatim>\<open>Main.cpp\<close>: the structs \<^verbatim>\<open>Barrier\<close> and
  \<^verbatim>\<open>Level\<close> and the member \<^verbatim>\<open>Data::getScore\<close>. The file holds two builds of the
  program; the embedding follows the first one (the second differs in
  \<^verbatim>\<open>Barrier::hit\<close> by strict comparisons in the vertical test).

  A C++ \<^verbatim>\<open>double\<close> is a binary64 number, and every arithmetic operation of the
  program rounds its exact result to the nearest binary64 number, ties to the even
  significand. The type \<open>double\<close> below is the set of real numbers that this rounding
  leaves unchanged, and \<open>dadd\<close>, \<open>dsub\<close>, \<open>dmul\<close>, \<open>ddiv\<close> are the rounded
  operations; a literal \<^verbatim>\<open>0.1\<close> of the source is \<open>D 0.1\<close>, the binary64 number nearest
  to one tenth. The exponent range of binary64 is not modelled: the rounding keeps 53
  significant bits at every magnitude, so it is the rounding of the machine for
  results of magnitude between \<open>2\<^sup>-\<^sup>1\<^sup>0\<^sup>2\<^sup>2\<close> and \<open>2\<^sup>1\<^sup>0\<^sup>2\<^sup>4\<close>; infinities, NaN, the
  sign of zero and subnormal numbers are outside this embedding. The only divisions of
  the program divide by the literals \<^verbatim>\<open>100.0\<close> and \<^verbatim>\<open>2.0\<close>.

  Calls of the random source (\<^verbatim>\<open>Random(0.4, 0.6)\<close>, \<^verbatim>\<open>RandomBool()\<close>,
  \<^verbatim>\<open>Random(0, 2)\<close>) are inputs of the model: a record of the values drawn. Reading
  \<^verbatim>\<open>front()\<close> or \<^verbatim>\<open>back()\<close> of an empty deque is undefined in C++; the model
  returns \<open>None\<close> there.
\<close>

subsection \<open>Binary64 numbers\<close>

text \<open>
  \<open>round_even y\<close> is the integer nearest to \<open>y\<close>, the even one of two equally near.
  \<open>binade x\<close> is \<open>\<lfloor>log\<^sub>2 x\<rfloor>\<close> for a positive \<open>x\<close>, computed by halving and doubling,
  and \<open>pow2 e\<close> is the power of two with exponent \<open>e\<close>. \<open>rnd64 x\<close> rounds \<open>x\<close> to 53
  significant bits: the unit in the last place of a number of binade \<open>b\<close> is
  \<open>pow2 (b - 52)\<close>.
\<close>

definition round_even :: "real \<Rightarrow> int" where
  "round_even y =
     (let f = \<lfloor>y\<rfloor>; r = y - of_int f
      in if r < 1 / 2 then f else if r > 1 / 2 then f + 1 else if even f then f else f + 1)"

function binade :: "real \<Rightarrow> int" where
  "binade x =
     (if x \<le> 0 then 0
      else if 2 \<le> x then binade (x / 2) + 1
      else if x < 1 then binade (x * 2) - 1
      else 0)"
  by pat_completeness auto
termination
proof (relation "measure (\<lambda>x. nat \<bar>\<lfloor>log 2 x\<rfloor>\<bar>)")
  show "wf (measure (\<lambda>x. nat \<bar>\<lfloor>log 2 x\<rfloor>\<bar>))" by simp
next
  fix x :: real
  assume "\<not> x \<le> 0" "2 \<le> x"
  then have "log 2 (x / 2) = log 2 x - 1" "1 \<le> log 2 x"
    by (simp_all add: log_divide le_log_iff)
  then have "\<lfloor>log 2 (x / 2)\<rfloor> = \<lfloor>log 2 x\<rfloor> - 1" "1 \<le> \<lfloor>log 2 x\<rfloor>"
    by (simp_all add: le_floor_iff)
  then have "nat \<bar>\<lfloor>log 2 (x / 2)\<rfloor>\<bar> < nat \<bar>\<lfloor>log 2 x\<rfloor>\<bar>" by linarith
  then show "(x / 2, x) \<in> measure (\<lambda>x. nat \<bar>\<lfloor>log 2 x\<rfloor>\<bar>)" by simp
next
  fix x :: real
  assume "\<not> x \<le> 0" "\<not> 2 \<le> x" "x < 1"
  then have "log 2 (x * 2) = log 2 x + 1" "log 2 x < 0"
    by (simp_all add: log_mult)
  then have "\<lfloor>log 2 (x * 2)\<rfloor> = \<lfloor>log 2 x\<rfloor> + 1" "\<lfloor>log 2 x\<rfloor> < 0"
    by (simp_all add: floor_less_iff)
  then have "nat \<bar>\<lfloor>log 2 (x * 2)\<rfloor>\<bar> < nat \<bar>\<lfloor>log 2 x\<rfloor>\<bar>" by linarith
  then show "(x * 2, x) \<in> measure (\<lambda>x. nat \<bar>\<lfloor>log 2 x\<rfloor>\<bar>)" by simp
qed

declare binade.simps [simp del]

definition pow2 :: "int \<Rightarrow> real" where
  "pow2 e = (if 0 \<le> e then 2 ^ nat e else 1 / 2 ^ nat (- e))"

definition rnd64 :: "real \<Rightarrow> real" where
  "rnd64 x =
     (if x = 0 then 0
      else let e = binade \<bar>x\<bar> - 52
           in of_int (round_even (x / pow2 e)) * pow2 e)"

text \<open>
  The binary64 numbers, their value as a real number, the binary64 number nearest to a
  real number, and the rounded operations. Negation is exact. Comparisons of binary64
  numbers compare their values.
\<close>

typedef double = "{x :: real. rnd64 x = x}"
  by (rule exI[of _ 0]) (simp add: rnd64_def)

definition val :: "double \<Rightarrow> real" where
  "val a = Rep_double a"

definition D :: "real \<Rightarrow> double" where
  "D x = Abs_double (rnd64 x)"

definition dadd :: "double \<Rightarrow> double \<Rightarrow> double" where
  "dadd a b = D (val a + val b)"

definition dsub :: "double \<Rightarrow> double \<Rightarrow> double" where
  "dsub a b = D (val a - val b)"

definition dmul :: "double \<Rightarrow> double \<Rightarrow> double" where
  "dmul a b = D (val a * val b)"

definition ddiv :: "double \<Rightarrow> double \<Rightarrow> double" where
  "ddiv a b = D (val a / val b)"

definition dneg :: "double \<Rightarrow> double" where
  "dneg a = D (- val a)"

instantiation double :: linorder
begin

definition less_eq_double :: "double \<Rightarrow> double \<Rightarrow> bool" where
  "less_eq_double a b = (val a \<le> val b)"

definition less_double :: "double \<Rightarrow> double \<Rightarrow> bool" where
  "less_double a b = (val a < val b)"

instance
  by standard (auto simp: less_eq_double_def less_double_def val_def Rep_double_inject)

end

subsection \<open>Constants\<close>

definition holeWidth :: double where
  "holeWidth = D 0.25"

definition barrierInterval :: double where
  "barrierInterval = D 0.5"

definition initialBarrierHeight :: double where
  "initialBarrierHeight = D 0.1"

definition playerPosY :: double where
  "playerPosY = D 0.2"

definition sideWallWidth :: double where
  "sideWallWidth = D 0.1"

subsection \<open>Barrier\<close>

datatype Type = Left | Right | Slit

record Barrier =
  type :: Type
  leftToHole :: double
  height :: double
  yPos :: double

text \<open>
  The \<^verbatim>\<open>switch\<close> of \<^verbatim>\<open>Barrier::hit\<close>: the condition under which the member returns
  \<^verbatim>\<open>false\<close> before it looks at the vertical position. The right end of a slit is the
  rounded sum \<^verbatim>\<open>leftToHole + holeWidth\<close>.
\<close>

definition in_hole :: "Barrier \<Rightarrow> double \<Rightarrow> bool" where
  "in_hole b x =
     (case type b of
        Left \<Rightarrow> x > leftToHole b
      | Right \<Rightarrow> x < leftToHole b
      | Slit \<Rightarrow> leftToHole b < x \<and> x < dadd (leftToHole b) holeWidth)"

definition Barrier_hit :: "Barrier \<Rightarrow> double \<Rightarrow> bool" where
  "Barrier_hit b x =
     (if in_hole b x then False
      else yPos b \<le> playerPosY \<and> playerPosY \<le> dadd (yPos b) (height b))"

definition isVisible :: "Barrier \<Rightarrow> bool" where
  "isVisible b = (yPos b > dneg (height b))"

subsection \<open>Level\<close>

record Level =
  barriers :: "Barrier list"
  mileage :: double

text \<open>
  One call of \<^verbatim>\<open>addBarrier\<close> draws \<^verbatim>\<open>pos = Random(0.4, 0.6)\<close> and then either
  \<^verbatim>\<open>RandomBool()\<close> or \<^verbatim>\<open>Random(0, 2)\<close>.
\<close>

record Draw =
  pos :: double
  coin :: bool
  pick :: int

definition valid_draw :: "Draw \<Rightarrow> bool" where
  "valid_draw d = (D 0.4 \<le> pos d \<and> pos d \<le> D 0.6 \<and> 0 \<le> pick d \<and> pick d \<le> 2)"

text \<open>The cast \<^verbatim>\<open>Barrier::Type(n)\<close> of an integer drawn from 0, 1, 2.\<close>

definition Type_of_int :: "int \<Rightarrow> Type" where
  "Type_of_int n = (if n = 0 then Left else if n = 1 then Right else Slit)"

definition addBarrier :: "Draw \<Rightarrow> Level \<Rightarrow> Level option" where
  "addBarrier d lv =
     (if barriers lv = [] then None
      else
        let back = last (barriers lv);
            (ty, lth) =
              (case type back of
                 Left \<Rightarrow> (if coin d then Right else Slit, pos d)
               | Right \<Rightarrow> (if coin d then Left else Slit, dsub (D 1.0) (pos d))
               | Slit \<Rightarrow> (Type_of_int (pick d), dsub (pos d) (ddiv holeWidth (D 2.0))));
            factor = min (ddiv (mileage lv) (D 100.0)) (D 1.0);
            h = dadd initialBarrierHeight (dmul factor (dsub (D 0.3) initialBarrierHeight))
        in Some (lv\<lparr>barriers := barriers lv @
                  [\<lparr>type = ty, leftToHole = lth, height = h,
                    yPos = dadd (yPos back) barrierInterval\<rparr>]\<rparr>))"

text \<open>
  The member initialisers of \<^verbatim>\<open>Level\<close>: one centred slit at \<^verbatim>\<open>yPos = 1.0\<close>, and
  \<^verbatim>\<open>mileage(0.0)\<close>.
\<close>

definition Level_init :: Level where
  "Level_init =
     \<lparr>barriers = [\<lparr>type = Slit, leftToHole = dsub (D 0.5) (ddiv holeWidth (D 2.0)),
                    height = initialBarrierHeight, yPos = D 1.0\<rparr>],
      mileage = D 0.0\<rparr>"

text \<open>
  The loop of the constructor; \<open>h\<close> is its local \<^verbatim>\<open>height\<close>, \<open>rng k\<close> the values drawn
  by the \<open>k\<close>-th call of \<^verbatim>\<open>addBarrier\<close>. With an operand that the rounded addition
  leaves unchanged the loop \<^verbatim>\<open>height += barrierInterval\<close> would not end, so the loop is
  a partial function; the constructor starts it at \<open>0.0\<close>, and \<open>Level_new_shape\<close> below
  shows that it returns.
\<close>

partial_function (option) Level_loop ::
    "double \<Rightarrow> (nat \<Rightarrow> Draw) \<Rightarrow> nat \<Rightarrow> Level \<Rightarrow> Level option" where
  "Level_loop h rng k lv =
     (if h < D 1.0 then
        (case addBarrier (rng k) lv of
           None \<Rightarrow> None
         | Some lv' \<Rightarrow> Level_loop (dadd h barrierInterval) rng (Suc k) lv')
      else Some lv)"

definition Level_new :: "(nat \<Rightarrow> Draw) \<Rightarrow> Level option" where
  "Level_new rng = Level_loop (D 0.0) rng 0 Level_init"

definition update :: "double \<Rightarrow> Draw \<Rightarrow> Level \<Rightarrow> Level option" where
  "update speedY d lv =
     (let lv1 = lv\<lparr>mileage := dadd (mileage lv) speedY,
                   barriers := map (\<lambda>b. b\<lparr>yPos := dsub (yPos b) speedY\<rparr>) (barriers lv)\<rparr>
      in case barriers lv1 of
           [] \<Rightarrow> None
         | front # rest \<Rightarrow>
             if \<not> isVisible front then addBarrier d (lv1\<lparr>barriers := rest\<rparr>)
             else Some lv1)"

fun hit_loop :: "Barrier list \<Rightarrow> double \<Rightarrow> bool" where
  "hit_loop [] posX = False"
| "hit_loop (b # bs) posX = (if Barrier_hit b posX then True else hit_loop bs posX)"

definition Level_hit :: "Level \<Rightarrow> double \<Rightarrow> bool" where
  "Level_hit lv posX =
     (if posX < sideWallWidth \<or> posX > dsub (D 1.0) sideWallWidth then True
      else hit_loop (barriers lv) posX)"

definition getMileage :: "Level \<Rightarrow> double" where
  "getMileage lv = mileage lv"

subsection \<open>Score\<close>

text \<open>
  The fields of \<^verbatim>\<open>Data\<close> that carry game state (the gamepad, the stopwatch and the
  fonts are handles of the framework).
\<close>

record Data =
  score :: int
  highScore :: int
  level :: Level
  playerPosX :: double
  playerAngle :: double

text \<open>
  \<^verbatim>\<open>static_cast<int>\<close> of a \<^verbatim>\<open>double\<close> discards the fractional part (it rounds
  toward zero); the conversion is undefined when the result does not fit a 32-bit
  \<^verbatim>\<open>int\<close>, and the model returns \<open>None\<close> there.
\<close>

definition static_cast_int :: "double \<Rightarrow> int option" where
  "static_cast_int v =
     (let t = (if val v \<ge> 0 then \<lfloor>val v\<rfloor> else \<lceil>val v\<rceil>)
      in if - (2 ^ 31) \<le> t \<and> t < 2 ^ 31 then Some t else None)"

definition getScore :: "Data \<Rightarrow> int option" where
  "getScore dat = static_cast_int (dmul (getMileage (level dat)) (D 5.0))"

subsection \<open>Reachable levels\<close>

text \<open>
  A level is reachable when the constructor returned it, or \<^verbatim>\<open>update\<close> returned it
  from a reachable level; every value drawn is one the random source can return, and
  \<^verbatim>\<open>speedY\<close> is any binary64 number.
\<close>

inductive reachable :: "Level \<Rightarrow> bool" where
  fresh: "\<forall>k. valid_draw (rng k) \<Longrightarrow> Level_new rng = Some lv \<Longrightarrow> reachable lv"
| step: "reachable lv \<Longrightarrow> valid_draw d \<Longrightarrow> update speedY d lv = Some lv' \<Longrightarrow> reachable lv'"

subsection \<open>Sequences of calls, and the properties of neighbours\<close>

text \<open>A caller that runs \<^verbatim>\<open>update\<close> once per element of a list of arguments.\<close>

primrec updates :: "(double \<times> Draw) list \<Rightarrow> Level \<Rightarrow> Level option" where
  "updates [] lv = Some lv"
| "updates (c # cs) lv =
     (case update (fst c) (snd c) lv of None \<Rightarrow> None | Some lv' \<Rightarrow> updates cs lv')"

text \<open>
  Two neighbours of the deque, \<open>p\<close> in front of \<open>n\<close>, alternate when they are not
  both \<^verbatim>\<open>Left\<close> and not both \<^verbatim>\<open>Right\<close>. They are spaced when \<open>n\<close> lies exactly one
  interval below \<open>p\<close>, and spaced within \<open>e\<close> when the distance differs from one
  interval by at most \<open>e\<close>.
\<close>

definition alt :: "Barrier \<Rightarrow> Barrier \<Rightarrow> bool" where
  "alt p n = (\<not> (type p = Left \<and> type n = Left) \<and> \<not> (type p = Right \<and> type n = Right))"

definition spaced_within :: "real \<Rightarrow> Barrier \<Rightarrow> Barrier \<Rightarrow> bool" where
  "spaced_within e p n = (\<bar>val (yPos n) - val (yPos p) - val barrierInterval\<bar> \<le> e)"

definition spaced :: "Barrier \<Rightarrow> Barrier \<Rightarrow> bool" where
  "spaced p n = (val (yPos n) - val (yPos p) = val barrierInterval)"

text \<open>
  The height that \<^verbatim>\<open>addBarrier\<close> gives a new barrier, as a function of the mileage:
  its two lines \<^verbatim>\<open>factor = std::min(mileage / 100.0, 1.0)\<close> and
  \<^verbatim>\<open>height = initialBarrierHeight + factor * (0.3 - initialBarrierHeight)\<close>.
\<close>

definition barrier_height :: "double \<Rightarrow> double" where
  "barrier_height m =
     (let factor = min (ddiv m (D 100.0)) (D 1.0)
      in dadd initialBarrierHeight (dmul factor (dsub (D 0.3) initialBarrierHeight)))"

subsection \<open>Example inputs\<close>

definition d0 :: Draw where
  "d0 = \<lparr>pos = D 0.5, coin = True, pick = 0\<rparr>"

definition d_slit :: Draw where
  "d_slit = \<lparr>pos = D 0.5, coin = False, pick = 2\<rparr>"

definition d_edge :: Draw where
  "d_edge = \<lparr>pos = D 0.4, coin = True, pick = 1\<rparr>"

text \<open>The level that the constructor returns when every draw is \<open>d0\<close>.\<close>

definition ex_level :: Level where
  "ex_level =
     \<lparr>barriers =
        [\<lparr>type = Slit, leftToHole = D 0.375, height = D 0.1, yPos = D 1\<rparr>,
         \<lparr>type = Left, leftToHole = D 0.375, height = D 0.1, yPos = D 1.5\<rparr>,
         \<lparr>type = Right, leftToHole = D 0.5, height = D 0.1, yPos = D 2\<rparr>],
      mileage = D 0\<rparr>"

text \<open>\<open>ex_level\<close> after \<^verbatim>\<open>update(10)\<close>, and that level after \<^verbatim>\<open>update(0)\<close>.\<close>

definition ex_far :: Level where
  "ex_far =
     \<lparr>barriers =
        [\<lparr>type = Left, leftToHole = D 0.375, height = D 0.1, yPos = D (- 8.5)\<rparr>,
         \<lparr>type = Right, leftToHole = D 0.5, height = D 0.1, yPos = D (- 8)\<rparr>,
         \<lparr>type = Left, leftToHole = D 0.5, height = barrier_height (D 10), yPos = D (- 7.5)\<rparr>],
      mileage = D 10\<rparr>"

definition ex_far' :: Level where
  "ex_far' =
     \<lparr>barriers =
        [\<lparr>type = Right, leftToHole = D 0.5, height = D 0.1, yPos = D (- 8)\<rparr>,
         \<lparr>type = Left, leftToHole = D 0.5, height = barrier_height (D 10), yPos = D (- 7.5)\<rparr>,
         \<lparr>type = Right, leftToHole = D 0.5, height = barrier_height (D 10), yPos = D (- 7)\<rparr>],
      mileage = D 10\<rparr>"

text \<open>
  \<open>ex_level\<close> after \<^verbatim>\<open>update(0.005)\<close>, the \<^verbatim>\<open>speedY\<close> of the first frame
  (\<^verbatim>\<open>5e-5 * 0 + 5e-3\<close>, times \<^verbatim>\<open>cos(0)\<close>), and \<open>ex_level\<close> after \<^verbatim>\<open>update(0.6)\<close>.
\<close>

definition ex_scrolled :: Level where
  "ex_scrolled =
     \<lparr>barriers =
        [\<lparr>type = Slit, leftToHole = D 0.375, height = D 0.1, yPos = dsub (D 1) (D 0.005)\<rparr>,
         \<lparr>type = Left, leftToHole = D 0.375, height = D 0.1, yPos = dsub (D 1.5) (D 0.005)\<rparr>,
         \<lparr>type = Right, leftToHole = D 0.5, height = D 0.1, yPos = dsub (D 2) (D 0.005)\<rparr>],
      mileage = D 0.005\<rparr>"

definition ex_06 :: Level where
  "ex_06 =
     \<lparr>barriers =
        [\<lparr>type = Slit, leftToHole = D 0.375, height = D 0.1, yPos = dsub (D 1) (D 0.6)\<rparr>,
         \<lparr>type = Left, leftToHole = D 0.375, height = D 0.1, yPos = dsub (D 1.5) (D 0.6)\<rparr>,
         \<lparr>type = Right, leftToHole = D 0.5, height = D 0.1, yPos = dsub (D 2) (D 0.6)\<rparr>],
      mileage = D 0.6\<rparr>"

text \<open>The initial level after one \<^verbatim>\<open>addBarrier\<close> that draws \<open>d_edge\<close>.\<close>

definition ex_edge :: Level where
  "ex_edge =
     \<lparr>barriers =
        [\<lparr>type = Slit, leftToHole = D 0.375, height = D 0.1, yPos = D 1\<rparr>,
         \<lparr>type = Right, leftToHole = D 0.275, height = D 0.1, yPos = D 1.5\<rparr>],
      mileage = D 0\<rparr>"

text \<open>
  A slit whose \<open>leftToHole\<close> is an odd multiple of \<open>2\<^sup>-\<^sup>5\<^sup>4\<close>, so that
  \<^verbatim>\<open>leftToHole + holeWidth\<close> is rounded.
\<close>

definition ex_slit :: Barrier where
  "ex_slit = \<lparr>type = Slit, leftToHole = D (7205759403792797 / 2 ^ 54), height = D 0.1, yPos = D 0.2\<rparr>"

definition ex_data :: "Level \<Rightarrow> Data" where
  "ex_data lv = \<lparr>score = 0, highScore = 0, level = lv, playerPosX = D 0.5, playerAngle = D 0.0\<rparr>"

section \<open>Properties of the rounding\<close>

lemmas rnd_defs = rnd64_def binade.simps pow2_def round_even_def Let_def

subsection \<open>Powers of two and the binade\<close>

lemma pow2_pos: "0 < pow2 e"
  by (simp add: pow2_def)

lemma pow2_Suc: "pow2 (e + 1) = 2 * pow2 e"
proof (cases "0 \<le> e")
  case True
  then have "nat (e + 1) = Suc (nat e)" by simp
  with True show ?thesis by (simp add: pow2_def)
next
  case False
  then have "nat (- e) = Suc (nat (- (e + 1)))" by simp
  with False show ?thesis by (simp add: pow2_def)
qed

lemma pow2_add: "pow2 (e + int n) = pow2 e * 2 ^ n"
proof (induction n)
  case 0
  show ?case by simp
next
  case (Suc n)
  have "e + int (Suc n) = (e + int n) + 1" by simp
  then have "pow2 (e + int (Suc n)) = pow2 ((e + int n) + 1)" by (simp only:)
  also have "\<dots> = 2 * pow2 (e + int n)" by (rule pow2_Suc)
  also have "\<dots> = pow2 e * 2 ^ Suc n" by (simp add: Suc)
  finally show ?case .
qed

lemma pow2_shift: "pow2 e = pow2 (e - 52) * 2 ^ 52"
  using pow2_add[of "e - 52" 52] by simp

lemma pow2_mono: "i \<le> j \<Longrightarrow> pow2 i \<le> pow2 j"
proof -
  assume "i \<le> j"
  then have "j = i + int (nat (j - i))" by simp
  then have "pow2 j = pow2 i * 2 ^ nat (j - i)" using pow2_add[of i "nat (j - i)"] by simp
  moreover have "(1::real) \<le> 2 ^ nat (j - i)" by simp
  ultimately show ?thesis using pow2_pos[of i] by (simp add: mult_le_cancel_left1)
qed

lemma pow2_less: "i < j \<Longrightarrow> 2 * pow2 i \<le> pow2 j"
  using pow2_mono[of "i + 1" j] by (simp add: pow2_Suc)

lemma binade_bounds: "0 < x \<Longrightarrow> pow2 (binade x) \<le> x \<and> x < 2 * pow2 (binade x)"
proof (induction x rule: binade.induct)
  case (1 x)
  show ?case
  proof (cases "2 \<le> x")
    case True
    with 1(1)[OF _ True] 1(3) have "pow2 (binade (x / 2)) \<le> x / 2 \<and> x / 2 < 2 * pow2 (binade (x / 2))"
      by simp
    moreover have "binade x = binade (x / 2) + 1"
      using True 1(3) by (subst binade.simps) simp
    ultimately show ?thesis by (simp add: pow2_Suc)
  next
    case False
    show ?thesis
    proof (cases "x < 1")
      case True
      with 1(2)[OF _ False True] 1(3) have "pow2 (binade (x * 2)) \<le> x * 2 \<and> x * 2 < 2 * pow2 (binade (x * 2))"
        by simp
      moreover have "binade x = binade (x * 2) - 1"
        using True False 1(3) by (subst binade.simps) simp
      moreover have "pow2 (binade (x * 2)) = 2 * pow2 (binade (x * 2) - 1)"
        using pow2_Suc[of "binade (x * 2) - 1"] by simp
      ultimately show ?thesis by simp
    next
      case F2: False
      then have "binade x = 0" using False 1(3) by (subst binade.simps) simp
      then show ?thesis using False F2 by (simp add: pow2_def)
    qed
  qed
qed

lemma binade_unique:
  assumes "pow2 k \<le> x" and "x < 2 * pow2 k"
  shows "binade x = k"
proof -
  have x: "0 < x" using assms(1) pow2_pos[of k] by simp
  note b = binade_bounds[OF x]
  show ?thesis
  proof (rule ccontr)
    assume "binade x \<noteq> k"
    then consider "binade x < k" | "k < binade x" by linarith
    then show False
    proof cases
      case 1
      from pow2_less[OF 1] b assms show False by simp
    next
      case 2
      from pow2_less[OF 2] b assms show False by simp
    qed
  qed
qed

subsection \<open>Rounding to the nearest integer\<close>

lemma round_even_int: "round_even (of_int n) = n"
  by (simp add: round_even_def)

lemma round_even_ge: "of_int n \<le> y \<Longrightarrow> n \<le> round_even y"
proof -
  assume "of_int n \<le> y"
  then have "n \<le> \<lfloor>y\<rfloor>" by (simp add: le_floor_iff)
  then show ?thesis by (simp add: round_even_def Let_def)
qed

lemma round_even_le: "y \<le> of_int n \<Longrightarrow> round_even y \<le> n"
proof (cases "y = of_int n")
  case True
  then show ?thesis by (simp add: round_even_int)
next
  case False
  assume "y \<le> of_int n"
  with False have "y < of_int n" by simp
  then have "\<lfloor>y\<rfloor> < n" by (simp add: floor_less_iff)
  then have "\<lfloor>y\<rfloor> + 1 \<le> n" by simp
  then show ?thesis by (simp add: round_even_def Let_def)
qed

lemma round_even_error: "\<bar>of_int (round_even y) - y\<bar> \<le> 1 / 2"
proof -
  have "of_int \<lfloor>y\<rfloor> \<le> y" "y < of_int \<lfloor>y\<rfloor> + 1" by linarith+
  then show ?thesis
    by (auto simp: round_even_def Let_def)
qed

lemma round_even_mono:
  assumes "x \<le> y"
  shows "round_even x \<le> round_even y"
proof (cases "\<lfloor>x\<rfloor> = \<lfloor>y\<rfloor>")
  case True
  have "x - of_int \<lfloor>x\<rfloor> \<le> y - of_int \<lfloor>y\<rfloor>" using assms True by simp
  then show ?thesis using True by (auto simp: round_even_def Let_def)
next
  case False
  have "\<lfloor>x\<rfloor> \<le> \<lfloor>y\<rfloor>" using assms by (rule floor_mono)
  with False have "\<lfloor>x\<rfloor> + 1 \<le> \<lfloor>y\<rfloor>" by simp
  moreover have "round_even x \<le> \<lfloor>x\<rfloor> + 1" by (simp add: round_even_def Let_def)
  moreover have "\<lfloor>y\<rfloor> \<le> round_even y" by (simp add: round_even_def Let_def)
  ultimately show ?thesis by linarith
qed

lemma round_even_minus: "round_even (- y) = - round_even y"
proof (cases "y = of_int \<lfloor>y\<rfloor>")
  case True
  then have "- y = of_int (- \<lfloor>y\<rfloor>)" by simp
  then have "round_even (- y) = - \<lfloor>y\<rfloor>" by (metis round_even_int)
  moreover have "round_even y = \<lfloor>y\<rfloor>" using True by (metis round_even_int)
  ultimately show ?thesis by simp
next
  case False
  have "of_int \<lfloor>y\<rfloor> \<le> y" by simp
  with False have lt: "of_int \<lfloor>y\<rfloor> < y" by linarith
  have up: "y < of_int \<lfloor>y\<rfloor> + 1" by linarith
  have fl: "\<lfloor>- y\<rfloor> = - \<lfloor>y\<rfloor> - 1"
  proof (rule floor_unique)
    have c: "of_int (- \<lfloor>y\<rfloor> - 1) = - of_int \<lfloor>y\<rfloor> - (1::real)" by simp
    show "of_int (- \<lfloor>y\<rfloor> - 1) \<le> - y" unfolding c using up by linarith
    show "- y < of_int (- \<lfloor>y\<rfloor> - 1) + 1" unfolding c using lt by linarith
  qed
  show ?thesis
    unfolding round_even_def Let_def fl
    using lt up by (auto simp: algebra_simps)
qed

subsection \<open>Rounding to 53 bits\<close>

text \<open>
  The rounding is idempotent and monotone, it moves a number by at most the
  \<open>2\<^sup>5\<^sup>3\<close>-th part of its magnitude, and it leaves integers up to \<open>2\<^sup>5\<^sup>3\<close> unchanged.
\<close>

lemma rnd64_0: "rnd64 0 = 0"
  by (simp add: rnd64_def)

lemma rnd64_minus: "rnd64 (- x) = - rnd64 x"
  by (simp add: rnd64_def Let_def round_even_minus)

lemma rnd64_pos_eq:
  "0 < x \<Longrightarrow> rnd64 x = of_int (round_even (x / pow2 (binade x - 52))) * pow2 (binade x - 52)"
  by (simp add: rnd64_def Let_def)

lemma sig_bounds:
  assumes "0 < x"
  shows "2 ^ 52 \<le> x / pow2 (binade x - 52)" and "x / pow2 (binade x - 52) < 2 ^ 53"
proof -
  let ?p = "pow2 (binade x - 52)"
  have p: "0 < ?p" by (rule pow2_pos)
  have b: "?p * 2 ^ 52 \<le> x" "x < 2 * (?p * 2 ^ 52)"
    using binade_bounds[OF assms] pow2_shift[of "binade x"] by simp_all
  show "2 ^ 52 \<le> x / ?p" using b(1) p by (simp add: pos_le_divide_eq mult.commute)
  show "x / ?p < 2 ^ 53" using b(2) p by (simp add: pos_divide_less_eq mult.commute)
qed

lemma sig_round_bounds:
  assumes "0 < x"
  shows "2 ^ 52 \<le> round_even (x / pow2 (binade x - 52))"
    and "round_even (x / pow2 (binade x - 52)) \<le> 2 ^ 53"
proof -
  have "of_int (2 ^ 52) \<le> x / pow2 (binade x - 52)" using sig_bounds(1)[OF assms] by simp
  then show "2 ^ 52 \<le> round_even (x / pow2 (binade x - 52))" by (rule round_even_ge)
  have "x / pow2 (binade x - 52) \<le> of_int (2 ^ 53)" using sig_bounds(2)[OF assms] by simp
  then show "round_even (x / pow2 (binade x - 52)) \<le> 2 ^ 53" by (rule round_even_le)
qed

lemma rnd64_binade_bounds:
  assumes "0 < x"
  shows "pow2 (binade x) \<le> rnd64 x" and "rnd64 x \<le> 2 * pow2 (binade x)"
proof -
  let ?p = "pow2 (binade x - 52)"
  let ?n = "round_even (x / ?p)"
  have p: "0 < ?p" by (rule pow2_pos)
  have n: "(2 ^ 52 :: real) \<le> of_int ?n" "of_int ?n \<le> (2 ^ 53 :: real)"
    using sig_round_bounds[OF assms] by (metis of_int_le_iff of_int_numeral of_int_power)+
  have "2 ^ 52 * ?p \<le> of_int ?n * ?p" using n(1) p by simp
  then show "pow2 (binade x) \<le> rnd64 x"
    using pow2_shift[of "binade x"] rnd64_pos_eq[OF assms] by (simp add: mult.commute)
  have "of_int ?n * ?p \<le> 2 ^ 53 * ?p" using n(2) p by simp
  then show "rnd64 x \<le> 2 * pow2 (binade x)"
    using pow2_shift[of "binade x"] rnd64_pos_eq[OF assms] by (simp add: mult.commute)
qed

lemma rnd64_pos: "0 < x \<Longrightarrow> 0 < rnd64 x"
  using rnd64_binade_bounds(1)[of x] pow2_pos[of "binade x"] by simp

lemma rnd64_grid:
  assumes "0 < x" and "x / pow2 (binade x - 52) = of_int n"
  shows "rnd64 x = x"
proof -
  have "rnd64 x = of_int n * pow2 (binade x - 52)"
    using rnd64_pos_eq[OF assms(1)] assms(2) by (simp add: round_even_int)
  also have "\<dots> = x" using assms(2) pow2_pos[of "binade x - 52"] by (simp add: field_simps)
  finally show ?thesis .
qed

lemma rnd64_idem_pos:
  assumes "0 < x"
  shows "rnd64 (rnd64 x) = rnd64 x"
proof -
  let ?k = "binade x"
  let ?p = "pow2 (?k - 52)"
  let ?n = "round_even (x / ?p)"
  let ?r = "rnd64 x"
  have p: "0 < ?p" by (rule pow2_pos)
  have r: "?r = of_int ?n * ?p" by (rule rnd64_pos_eq[OF assms])
  have rpos: "0 < ?r" by (rule rnd64_pos[OF assms])
  note bb = rnd64_binade_bounds[OF assms]
  show ?thesis
  proof (cases "?r < 2 * pow2 ?k")
    case True
    have k: "binade ?r = ?k" using bb(1) True by (rule binade_unique)
    have "?r / pow2 (binade ?r - 52) = of_int ?n" unfolding k using r p by simp
    then show ?thesis by (rule rnd64_grid[OF rpos])
  next
    case False
    with bb(2) have eq: "?r = 2 * pow2 ?k" by simp
    then have eq': "?r = pow2 (?k + 1)" by (simp add: pow2_Suc)
    have k: "binade ?r = ?k + 1"
      by (rule binade_unique) (simp_all add: eq' pow2_pos)
    have sh: "pow2 (?k + 1) = pow2 (?k + 1 - 52) * 2 ^ 52" by (rule pow2_shift)
    have "?r / pow2 (binade ?r - 52) = ?r / pow2 (?k + 1 - 52)" by (simp only: k)
    also have "\<dots> = pow2 (?k + 1) / pow2 (?k + 1 - 52)" by (simp only: eq')
    also have "\<dots> = 2 ^ 52" using pow2_pos[of "?k + 1 - 52"] by (simp add: sh)
    finally have "?r / pow2 (binade ?r - 52) = 2 ^ 52" .
    then have "?r / pow2 (binade ?r - 52) = of_int (2 ^ 52)" by simp
    then show ?thesis by (rule rnd64_grid[OF rpos])
  qed
qed

lemma rnd64_idem: "rnd64 (rnd64 x) = rnd64 x"
proof -
  consider "x = 0" | "0 < x" | "x < 0" by linarith
  then show ?thesis
  proof cases
    case 1 then show ?thesis by (simp add: rnd64_0)
  next
    case 2 then show ?thesis by (rule rnd64_idem_pos)
  next
    case 3
    then have "rnd64 (rnd64 (- x)) = rnd64 (- x)" by (intro rnd64_idem_pos) simp
    then show ?thesis by (simp add: rnd64_minus)
  qed
qed

lemma binade_mono:
  assumes "0 < x" and "x \<le> y"
  shows "binade x \<le> binade y"
proof (rule ccontr)
  assume "\<not> binade x \<le> binade y"
  then have "binade y < binade x" by simp
  from pow2_less[OF this] binade_bounds[OF assms(1)] binade_bounds[of y] assms
  show False by simp
qed

lemma rnd64_mono_pos:
  assumes "0 < x" and "x \<le> y"
  shows "rnd64 x \<le> rnd64 y"
proof -
  have y: "0 < y" using assms by simp
  show ?thesis
  proof (cases "binade x = binade y")
    case True
    let ?p = "pow2 (binade y - 52)"
    have p: "0 < ?p" by (rule pow2_pos)
    have "x / ?p \<le> y / ?p" using assms(2) p by (simp add: divide_right_mono)
    then have "round_even (x / ?p) \<le> round_even (y / ?p)" by (rule round_even_mono)
    then have "of_int (round_even (x / ?p)) * ?p \<le> of_int (round_even (y / ?p)) * ?p"
      using p by simp
    then show ?thesis using rnd64_pos_eq[OF assms(1)] rnd64_pos_eq[OF y] True by simp
  next
    case False
    with binade_mono[OF assms] have "binade x < binade y" by simp
    from pow2_less[OF this] rnd64_binade_bounds(2)[OF assms(1)] rnd64_binade_bounds(1)[OF y]
    show ?thesis by simp
  qed
qed

lemma rnd64_nonneg: "0 \<le> x \<Longrightarrow> 0 \<le> rnd64 x"
  using rnd64_pos[of x] by (cases "x = 0") (simp_all add: rnd64_0 less_eq_real_def)

lemma rnd64_mono:
  assumes "x \<le> y"
  shows "rnd64 x \<le> rnd64 y"
proof -
  consider "0 < x" | "x \<le> 0" "0 \<le> y" | "y < 0" using assms by linarith
  then show ?thesis
  proof cases
    case 1 then show ?thesis using assms by (rule rnd64_mono_pos)
  next
    case 2
    have "0 \<le> rnd64 (- x)" using 2(1) by (intro rnd64_nonneg) simp
    then have "rnd64 x \<le> 0" by (simp add: rnd64_minus)
    moreover have "0 \<le> rnd64 y" using 2(2) by (rule rnd64_nonneg)
    ultimately show ?thesis by simp
  next
    case 3
    then have "rnd64 (- y) \<le> rnd64 (- x)" using assms by (intro rnd64_mono_pos) simp_all
    then show ?thesis by (simp add: rnd64_minus)
  qed
qed

lemma rnd64_error: "\<bar>rnd64 x - x\<bar> \<le> \<bar>x\<bar> / 2 ^ 53"
proof -
  have pos: "\<bar>rnd64 x - x\<bar> \<le> x / 2 ^ 53" if x: "0 < x" for x
  proof -
    let ?p = "pow2 (binade x - 52)"
    have p: "0 < ?p" by (rule pow2_pos)
    have "rnd64 x - x = (of_int (round_even (x / ?p)) - x / ?p) * ?p"
      using rnd64_pos_eq[OF x] p by (simp add: field_simps)
    then have "\<bar>rnd64 x - x\<bar> = \<bar>of_int (round_even (x / ?p)) - x / ?p\<bar> * ?p"
      using p by (simp add: abs_mult)
    also have "\<dots> \<le> 1 / 2 * ?p"
      using round_even_error[of "x / ?p"] p by (intro mult_right_mono) simp_all
    also have "\<dots> = pow2 (binade x) / 2 ^ 53" using pow2_shift[of "binade x"] by simp
    also have "\<dots> \<le> x / 2 ^ 53" using binade_bounds[OF x] by (simp add: divide_right_mono)
    finally show ?thesis .
  qed
  consider "x = 0" | "0 < x" | "x < 0" by linarith
  then show ?thesis
  proof cases
    case 1 then show ?thesis by (simp add: rnd64_0)
  next
    case 2 then show ?thesis using pos[OF 2] by simp
  next
    case 3
    then have "\<bar>rnd64 (- x) - (- x)\<bar> \<le> (- x) / 2 ^ 53" by (intro pos) simp
    then show ?thesis using 3 by (simp add: rnd64_minus abs_minus_commute)
  qed
qed

lemma rnd64_fix_grid:
  assumes "rnd64 x = x" and "0 < x"
  shows "\<exists>n. x = of_int n * pow2 (binade x - 52)"
  using rnd64_pos_eq[OF assms(2)] assms(1) by metis

lemma rnd64_int:
  assumes "\<bar>n\<bar> \<le> 2 ^ 53"
  shows "rnd64 (of_int n) = of_int n"
proof -
  have pos: "rnd64 (of_int n) = of_int n" if n: "0 < n" "n \<le> 2 ^ 53" for n :: int
  proof -
    let ?x = "of_int n :: real"
    have x: "0 < ?x" using n by simp
    have "?x \<le> 2 ^ 53" using n(2) by (metis of_int_le_iff of_int_numeral of_int_power)
    have kle: "binade ?x \<le> 53"
    proof (rule ccontr)
      assume "\<not> binade ?x \<le> 53"
      then have "53 < binade ?x" by simp
      from pow2_less[OF this] binade_bounds[OF x] \<open>?x \<le> 2 ^ 53\<close>
      show False by (simp add: pow2_def)
    qed
    show ?thesis
    proof (cases "binade ?x \<le> 52")
      case True
      define m where "m = nat (52 - binade ?x)"
      have "binade ?x - 52 + int m = 0" using True by (simp add: m_def)
      then have "pow2 (binade ?x - 52) * 2 ^ m = 1"
        using pow2_add[of "binade ?x - 52" m] by (simp add: pow2_def)
      then have "?x / pow2 (binade ?x - 52) = ?x * 2 ^ m"
        using pow2_pos[of "binade ?x - 52"] by (simp add: field_simps)
      also have "\<dots> = of_int (n * 2 ^ m)" by simp
      finally show ?thesis by (rule rnd64_grid[OF x])
    next
      case False
      with kle have k: "binade ?x = 53" by simp
      then have "pow2 53 \<le> ?x" using binade_bounds[OF x] by simp
      then have "?x = 2 ^ 53" using \<open>?x \<le> 2 ^ 53\<close> by (simp add: pow2_def)
      then have "?x / pow2 (binade ?x - 52) = of_int (2 ^ 52)" unfolding k by (simp add: pow2_def)
      then show ?thesis by (rule rnd64_grid[OF x])
    qed
  qed
  consider "n = 0" | "0 < n" | "n < 0" by linarith
  then show ?thesis
  proof cases
    case 1 then show ?thesis by (simp add: rnd64_0)
  next
    case 2 then show ?thesis using assms by (intro pos) simp_all
  next
    case 3
    then have "rnd64 (of_int (- n)) = of_int (- n)" using assms by (intro pos) simp_all
    then show ?thesis by (simp add: rnd64_minus)
  qed
qed

lemma rnd64_abs_le: "\<bar>rnd64 x\<bar> \<le> 2 * \<bar>x\<bar>"
proof -
  have "\<bar>x\<bar> / 2 ^ 53 \<le> \<bar>x\<bar>" by (simp add: divide_le_eq)
  with rnd64_error[of x] show ?thesis by linarith
qed

lemma rnd64_near:
  assumes "0 \<le> x" "x \<le> 1"
  shows "\<bar>rnd64 x - x\<bar> \<le> 1 / 2 ^ 53"
proof -
  have "\<bar>x\<bar> / 2 ^ 53 \<le> 1 / 2 ^ 53" using assms by (simp add: divide_right_mono)
  with rnd64_error[of x] show ?thesis by linarith
qed

subsection \<open>The values of binary64 numbers\<close>

lemma val_D: "val (D x) = rnd64 x"
  by (simp add: val_def D_def Abs_double_inverse rnd64_idem)

lemma rnd64_val: "rnd64 (val a) = val a"
  using Rep_double[of a] by (simp add: val_def)

lemma val_dadd: "val (dadd a b) = rnd64 (val a + val b)"
  by (simp add: dadd_def val_D)

lemma val_dsub: "val (dsub a b) = rnd64 (val a - val b)"
  by (simp add: dsub_def val_D)

lemma val_dmul: "val (dmul a b) = rnd64 (val a * val b)"
  by (simp add: dmul_def val_D)

lemma val_ddiv: "val (ddiv a b) = rnd64 (val a / val b)"
  by (simp add: ddiv_def val_D)

lemma val_dneg: "val (dneg a) = - val a"
  by (simp add: dneg_def val_D rnd64_minus rnd64_val)

lemma double_eq_iff: "a = b \<longleftrightarrow> val a = val b"
  by (simp add: val_def Rep_double_inject)

lemma D_val: "D (val a) = a"
  by (simp add: double_eq_iff val_D rnd64_val)

lemma double_le_iff: "a \<le> b \<longleftrightarrow> val a \<le> val b"
  by (simp add: less_eq_double_def)

lemma double_less_iff: "a < b \<longleftrightarrow> val a < val b"
  by (simp add: less_double_def)

lemma val_min: "val (min a b) = min (val a) (val b)"
  by (simp add: min_def double_le_iff)

lemmas val_simps = val_D val_dadd val_dsub val_dmul val_ddiv val_dneg val_min

lemmas d_iffs = double_eq_iff double_le_iff double_less_iff

lemma val_le_rnd: "val x \<le> s \<Longrightarrow> val x \<le> rnd64 s"
  using rnd64_mono[of "val x" s] by (simp add: rnd64_val)

lemma rnd_le_val: "s \<le> val x \<Longrightarrow> rnd64 s \<le> val x"
  using rnd64_mono[of s "val x"] by (simp add: rnd64_val)

lemma val_less_rnd: "val x < rnd64 s \<Longrightarrow> val x < s"
  using rnd_le_val[of s x] by (cases "val x < s") simp_all

lemma rnd_less_val: "rnd64 s < val x \<Longrightarrow> s < val x"
  using val_le_rnd[of x s] by (cases "s < val x") simp_all

lemma floor_rnd64:
  assumes "0 \<le> y" and "rnd64 y < 2 ^ 31"
  shows "\<lfloor>rnd64 y\<rfloor> = (if rnd64 y = of_int (\<lfloor>y\<rfloor> + 1) then \<lfloor>y\<rfloor> + 1 else \<lfloor>y\<rfloor>)"
proof -
  have y31: "y < 2 ^ 31"
  proof (rule ccontr)
    assume "\<not> y < 2 ^ 31"
    then have "rnd64 (2 ^ 31) \<le> rnd64 y" by (intro rnd64_mono) simp
    moreover have "rnd64 (2 ^ 31) = 2 ^ 31" using rnd64_int[of "2 ^ 31"] by simp
    ultimately show False using assms(2) by simp
  qed
  let ?n = "\<lfloor>y\<rfloor>"
  have n0: "0 \<le> ?n" using assms(1) by simp
  have "of_int ?n \<le> y" by simp
  then have "of_int ?n < (2 ^ 31 :: real)" using y31 by linarith
  then have n31: "?n < 2 ^ 31" by (metis of_int_less_iff of_int_numeral of_int_power)
  have "rnd64 (of_int ?n) \<le> rnd64 y" by (intro rnd64_mono) simp
  moreover have "rnd64 (of_int ?n) = of_int ?n" using n0 n31 by (intro rnd64_int) simp
  ultimately have lo: "of_int ?n \<le> rnd64 y" by simp
  have "y \<le> of_int (?n + 1)" by linarith
  then have "rnd64 y \<le> rnd64 (of_int (?n + 1))" by (rule rnd64_mono)
  moreover have "rnd64 (of_int (?n + 1)) = of_int (?n + 1)" using n0 n31 by (intro rnd64_int) simp
  ultimately have hi: "rnd64 y \<le> of_int (?n + 1)" by simp
  show ?thesis
  proof (cases "rnd64 y = of_int (?n + 1)")
    case True
    then have "\<lfloor>rnd64 y\<rfloor> = ?n + 1" by (metis floor_of_int)
    with True show ?thesis by simp
  next
    case False
    with hi have "rnd64 y < of_int (?n + 1)" by simp
    with lo have "\<lfloor>rnd64 y\<rfloor> = ?n" by (intro floor_unique) simp_all
    with False show ?thesis by simp
  qed
qed

section \<open>Properties of the program\<close>

lemmas consts_defs =
  holeWidth_def barrierInterval_def initialBarrierHeight_def playerPosY_def sideWallWidth_def

lemmas eval_defs =
  Level_new_def Level_loop.simps Level_init_def addBarrier_def update_def isVisible_def
  consts_defs Let_def Type_of_int_def d0_def ex_level_def
  d_iffs val_simps

lemma rnd64_consts:
  "rnd64 0 = 0" "rnd64 (1 / 8) = 1 / 8" "rnd64 (1 / 4) = 1 / 4" "rnd64 (3 / 8) = 3 / 8"
  "rnd64 (1 / 2) = 1 / 2" "rnd64 1 = 1" "rnd64 (3 / 2) = 3 / 2" "rnd64 2 = 2"
  "rnd64 5 = 5" "rnd64 10 = 10" "rnd64 100 = 100"
  "rnd64 (1 / 10) = 3602879701896397 / 2 ^ 55"
  "rnd64 (1 / 5) = 3602879701896397 / 2 ^ 54"
  "rnd64 (3 / 10) = 5404319552844595 / 2 ^ 54"
  "rnd64 (2 / 5) = 3602879701896397 / 2 ^ 53"
  "rnd64 (3 / 5) = 5404319552844595 / 2 ^ 53"
  "rnd64 (9 / 10) = 8106479329266893 / 2 ^ 53"
  by (simp_all add: rnd_defs)

lemma val_consts:
  "val (D 0) = 0" "val (D 1) = 1" "val (D 100) = 100"
  "val (D (1 / 10)) = 3602879701896397 / 2 ^ 55"
  "val (D (3 / 10)) = 5404319552844595 / 2 ^ 54"
  by (simp_all add: val_simps rnd64_consts)

lemma loop_steps:
  "dadd (D 0) barrierInterval = D (1 / 2)" "dadd (D (1 / 2)) barrierInterval = D 1"
  "D 0 < D 1" "D (1 / 2) < D 1" "dadd (D 1) barrierInterval = D (3 / 2)"
  "dadd (D (3 / 2)) barrierInterval = D 2"
  by (simp_all add: d_iffs val_simps barrierInterval_def rnd64_consts)

lemma dsub_zero: "dsub y (D 0) = y"
  by (simp add: d_iffs val_simps rnd64_consts rnd64_val)

lemma dadd_zero: "dadd y (D 0) = y"
  by (simp add: d_iffs val_simps rnd64_consts rnd64_val)

subsection \<open>What the operations return\<close>

lemma hit_loop_iff: "hit_loop bs x \<longleftrightarrow> (\<exists>b\<in>set bs. Barrier_hit b x)"
  by (induction bs) auto

lemma addBarrier_None_iff: "addBarrier d lv = None \<longleftrightarrow> barriers lv = []"
  by (simp add: addBarrier_def Let_def split: prod.splits)

lemma addBarrier_SomeD:
  assumes "addBarrier d lv = Some lv'"
  shows "\<exists>b. lv' = lv\<lparr>barriers := barriers lv @ [b]\<rparr>
           \<and> yPos b = dadd (yPos (last (barriers lv))) barrierInterval
           \<and> height b = barrier_height (mileage lv)
           \<and> (type (last (barriers lv)) = Left \<longrightarrow> type b \<noteq> Left \<and> leftToHole b = pos d)
           \<and> (type (last (barriers lv)) = Right \<longrightarrow>
                type b \<noteq> Right \<and> leftToHole b = dsub (D 1) (pos d))
           \<and> (type (last (barriers lv)) = Slit \<longrightarrow>
                type b = Type_of_int (pick d)
                \<and> leftToHole b = dsub (pos d) (ddiv holeWidth (D 2)))"
    and "barriers lv \<noteq> []"
  using assms
  by (auto simp: addBarrier_def barrier_height_def Let_def split: Type.splits prod.splits if_splits)

lemma addBarrier_total:
  assumes "barriers lv \<noteq> []"
  shows "\<exists>lv'. addBarrier d lv = Some lv'"
  using assms addBarrier_None_iff[of d lv] by (cases "addBarrier d lv") auto

lemma addBarrier_successively:
  assumes "addBarrier d lv = Some lv'" "successively P (barriers lv)"
    "P (last (barriers lv)) (last (barriers lv'))"
  shows "successively P (barriers lv')"
  using addBarrier_SomeD[OF assms(1)] assms(2,3)
  by (auto simp: successively_append_iff)

lemma Level_new_shape:
  "\<exists>b1 b2. Level_new rng =
      Some \<lparr>barriers = [\<lparr>type = Slit, leftToHole = D 0.375, height = D 0.1, yPos = D 1\<rparr>, b1, b2],
            mileage = D 0\<rparr>
    \<and> alt \<lparr>type = Slit, leftToHole = D 0.375, height = D 0.1, yPos = D 1\<rparr> b1 \<and> alt b1 b2
    \<and> yPos b1 = D 1.5 \<and> yPos b2 = D 2"
proof -
  have i: "Level_init =
      \<lparr>barriers = [\<lparr>type = Slit, leftToHole = D 0.375, height = D 0.1, yPos = D 1\<rparr>],
       mileage = D 0\<rparr>"
    by (simp add: Level_init_def consts_defs d_iffs val_simps rnd64_consts)
  obtain lv1 where 1: "addBarrier (rng 0) Level_init = Some lv1"
    using addBarrier_total[of Level_init "rng 0"] by (auto simp: i)
  from addBarrier_SomeD(1)[OF 1] obtain b1 where
    b1: "lv1 = Level_init\<lparr>barriers := barriers Level_init @ [b1]\<rparr>"
      "yPos b1 = dadd (yPos (last (barriers Level_init))) barrierInterval" by blast
  obtain lv2 where 2: "addBarrier (rng (Suc 0)) lv1 = Some lv2"
    using addBarrier_total[of lv1 "rng (Suc 0)"] b1(1) by auto
  from addBarrier_SomeD(1)[OF 2] obtain b2 where
    b2: "lv2 = lv1\<lparr>barriers := barriers lv1 @ [b2]\<rparr>"
      "yPos b2 = dadd (yPos (last (barriers lv1))) barrierInterval"
      "type (last (barriers lv1)) = Left \<longrightarrow> type b2 \<noteq> Left"
      "type (last (barriers lv1)) = Right \<longrightarrow> type b2 \<noteq> Right" by blast
  have l3: "Level_loop (D 1) rng (Suc (Suc 0)) lv2 = Some lv2"
    by (subst Level_loop.simps) simp
  have l2: "Level_loop (D (1 / 2)) rng (Suc 0) lv1 = Some lv2"
    by (subst Level_loop.simps) (simp add: 2 loop_steps l3)
  have "Level_loop (D 0) rng 0 Level_init = Some lv2"
    by (subst Level_loop.simps) (simp add: 1 loop_steps l2)
  then have "Level_new rng = Some lv2"
    by (simp add: Level_new_def)
  then have "Level_new rng =
      Some \<lparr>barriers = [\<lparr>type = Slit, leftToHole = D 0.375, height = D 0.1, yPos = D 1\<rparr>, b1, b2],
            mileage = D 0\<rparr>"
    using b1(1) b2(1) by (simp add: i)
  moreover have "alt \<lparr>type = Slit, leftToHole = D 0.375, height = D 0.1, yPos = D 1\<rparr> b1"
    by (simp add: alt_def)
  moreover have "alt b1 b2" using b2(3,4) b1(1) by (auto simp: alt_def)
  moreover have y1: "yPos b1 = D 1.5" using b1(2) by (simp add: i loop_steps)
  moreover have "yPos b2 = D 2" using b2(2) b1(1) y1 by (simp add: loop_steps)
  ultimately show ?thesis by blast
qed

lemma update_SomeD:
  assumes "update s d lv = Some lv'"
  shows "barriers lv \<noteq> []"
    and "(isVisible (hd (map (\<lambda>b. b\<lparr>yPos := dsub (yPos b) s\<rparr>) (barriers lv)))
           \<and> lv' = \<lparr>barriers = map (\<lambda>b. b\<lparr>yPos := dsub (yPos b) s\<rparr>) (barriers lv),
                    mileage = dadd (mileage lv) s\<rparr>)
       \<or> (\<not> isVisible (hd (map (\<lambda>b. b\<lparr>yPos := dsub (yPos b) s\<rparr>) (barriers lv)))
           \<and> addBarrier d \<lparr>barriers = tl (map (\<lambda>b. b\<lparr>yPos := dsub (yPos b) s\<rparr>) (barriers lv)),
                            mileage = dadd (mileage lv) s\<rparr> = Some lv')"
  using assms
  by (cases lv; cases "barriers lv"; auto simp: update_def Let_def split: list.splits if_splits)+

lemma update_length:
  assumes "update s d lv = Some lv'"
  shows "length (barriers lv') = length (barriers lv)"
  using update_SomeD[OF assms]
  by (auto dest!: addBarrier_SomeD(1))

lemma update_total:
  assumes "2 \<le> length (barriers lv)"
  shows "\<exists>lv'. update s d lv = Some lv'"
proof (cases "barriers lv")
  case Nil with assms show ?thesis by simp
next
  case (Cons f rest)
  with assms have "rest \<noteq> []" by auto
  then have "map (\<lambda>b. b\<lparr>yPos := dsub (yPos b) s\<rparr>) rest \<noteq> []" by simp
  then have "addBarrier d (lv\<lparr>mileage := dadd (mileage lv) s,
      barriers := map (\<lambda>b. b\<lparr>yPos := dsub (yPos b) s\<rparr>) rest\<rparr>) \<noteq> None"
    by (simp add: addBarrier_None_iff)
  then show ?thesis using Cons
    by (auto simp: update_def Let_def)
qed

lemma update_successively:
  assumes u: "update s d lv = Some lv'" and P: "successively P (barriers lv)"
    and shift: "\<And>a b. P a b \<Longrightarrow> Q (a\<lparr>yPos := dsub (yPos a) s\<rparr>) (b\<lparr>yPos := dsub (yPos b) s\<rparr>)"
    and add: "\<And>l0 l1. addBarrier d l0 = Some l1 \<Longrightarrow> Q (last (barriers l0)) (last (barriers l1))"
  shows "successively Q (barriers lv')"
proof -
  let ?bs = "map (\<lambda>b. b\<lparr>yPos := dsub (yPos b) s\<rparr>) (barriers lv)"
  have bs: "successively Q ?bs"
    unfolding successively_map using P shift by (rule successively_mono)
  from update_SomeD(2)[OF u] show ?thesis
  proof
    assume "isVisible (hd ?bs) \<and> lv' = \<lparr>barriers = ?bs, mileage = dadd (mileage lv) s\<rparr>"
    with bs show ?thesis by simp
  next
    assume a: "\<not> isVisible (hd ?bs)
      \<and> addBarrier d \<lparr>barriers = tl ?bs, mileage = dadd (mileage lv) s\<rparr> = Some lv'"
    have "successively Q (tl ?bs)" using bs by (cases ?bs) (auto simp: successively_Cons)
    moreover from a have ab:
      "addBarrier d \<lparr>barriers = tl ?bs, mileage = dadd (mileage lv) s\<rparr> = Some lv'" ..
    moreover from add[OF ab] have "Q (last (tl ?bs)) (last (barriers lv'))" by simp
    ultimately show ?thesis
      using addBarrier_successively[of d "\<lparr>barriers = tl ?bs, mileage = dadd (mileage lv) s\<rparr>" lv' Q]
      by simp
  qed
qed

lemma update_successively_tail:
  assumes u: "update s d lv = Some lv'" and P: "successively P (barriers lv)"
    and shift: "\<And>a b. P a b \<Longrightarrow> Q (a\<lparr>yPos := dsub (yPos a) s\<rparr>) (b\<lparr>yPos := dsub (yPos b) s\<rparr>)"
    and add: "\<And>l0. barriers l0 = tl (map (\<lambda>b. b\<lparr>yPos := dsub (yPos b) s\<rparr>) (barriers lv))
                \<Longrightarrow> addBarrier d l0 = Some lv' \<Longrightarrow> Q (last (barriers l0)) (last (barriers lv'))"
  shows "successively Q (barriers lv')"
proof -
  let ?bs = "map (\<lambda>b. b\<lparr>yPos := dsub (yPos b) s\<rparr>) (barriers lv)"
  have bs: "successively Q ?bs"
    unfolding successively_map using P shift by (rule successively_mono)
  from update_SomeD(2)[OF u] show ?thesis
  proof
    assume "isVisible (hd ?bs) \<and> lv' = \<lparr>barriers = ?bs, mileage = dadd (mileage lv) s\<rparr>"
    with bs show ?thesis by simp
  next
    assume a: "\<not> isVisible (hd ?bs)
      \<and> addBarrier d \<lparr>barriers = tl ?bs, mileage = dadd (mileage lv) s\<rparr> = Some lv'"
    have "successively Q (tl ?bs)" using bs by (cases ?bs) (auto simp: successively_Cons)
    moreover from a have ab:
      "addBarrier d \<lparr>barriers = tl ?bs, mileage = dadd (mileage lv) s\<rparr> = Some lv'" ..
    moreover from add[OF _ ab] have "Q (last (tl ?bs)) (last (barriers lv'))" by simp
    ultimately show ?thesis
      using addBarrier_successively[of d "\<lparr>barriers = tl ?bs, mileage = dadd (mileage lv) s\<rparr>" lv' Q]
      by simp
  qed
qed

lemma successively_conj_all:
  "successively P xs \<Longrightarrow> \<forall>x\<in>set xs. R x \<Longrightarrow> successively (\<lambda>a b. P a b \<and> R a \<and> R b) xs"
  by (induction xs rule: induct_list012) auto

lemma reachable_length: "reachable lv \<Longrightarrow> length (barriers lv) = 3"
proof (induction rule: reachable.induct)
  case (fresh rng lv)
  then show ?case using Level_new_shape[of rng] by auto
next
  case (step lv d speedY lv')
  then show ?case using update_length by simp
qed

lemma reachable_alt: "reachable lv \<Longrightarrow> successively alt (barriers lv)"
proof (induction rule: reachable.induct)
  case (fresh rng lv)
  then show ?case using Level_new_shape[of rng] by auto
next
  case (step lv d speedY lv')
  show ?case
  proof (rule update_successively[OF step(3) step(4)])
    show "\<And>a b. alt a b \<Longrightarrow> alt (a\<lparr>yPos := dsub (yPos a) speedY\<rparr>) (b\<lparr>yPos := dsub (yPos b) speedY\<rparr>)"
      by (simp add: alt_def)
    show "\<And>l0 l1. addBarrier d l0 = Some l1 \<Longrightarrow> alt (last (barriers l0)) (last (barriers l1))"
      by (auto simp: alt_def dest!: addBarrier_SomeD(1))
  qed
qed

lemma update_zero_visible:
  assumes "barriers lv \<noteq> []" "isVisible (hd (barriers lv))"
  shows "update (D 0) d lv = Some lv"
  using assms by (cases "barriers lv") (auto simp: update_def Let_def dsub_zero dadd_zero)

lemma addBarrier_slit:
  assumes "barriers lv \<noteq> []"
  shows "\<exists>lv'. addBarrier d_slit lv = Some lv' \<and> type (last (barriers lv')) = Slit"
  using assms
  by (auto simp: addBarrier_def Let_def d_slit_def Type_of_int_def split: Type.splits)

subsection \<open>The example inputs, evaluated\<close>

lemma ex_level_new: "Level_new (\<lambda>k. d0) = Some ex_level"
  by (simp add: eval_defs barrier_height_def rnd64_consts, simp add: rnd_defs)

lemma ex_far_update: "update (D 10) d0 ex_level = Some ex_far"
  by (simp add: eval_defs ex_far_def barrier_height_def rnd64_consts, simp add: rnd_defs)

lemma ex_far'_update: "update (D 0) d0 ex_far = Some ex_far'"
  by (simp add: eval_defs ex_far_def ex_far'_def barrier_height_def rnd64_consts, simp add: rnd_defs)

lemma valid_d0: "valid_draw d0"
  by (simp add: valid_draw_def d0_def d_iffs val_simps rnd64_consts)

lemma reachable_ex_level: "reachable ex_level"
  using fresh[of "\<lambda>k. d0" ex_level] ex_level_new valid_d0 by simp

lemma reachable_ex_far: "reachable ex_far"
  using step[OF reachable_ex_level valid_d0 ex_far_update] .

lemma ex_far_add:
  "addBarrier d0 ex_far = Some (ex_far\<lparr>barriers := barriers ex_far @
        [\<lparr>type = Right, leftToHole = D 0.5, height = barrier_height (D 10), yPos = D (- 7)\<rparr>]\<rparr>)"
  by (simp add: eval_defs ex_far_def barrier_height_def rnd64_consts, simp add: rnd_defs)

lemma ex_06_update: "update (D 0.6) d0 ex_level = Some ex_06"
  by (simp add: eval_defs ex_06_def rnd64_consts, (simp add: rnd_defs)?)

lemma reachable_ex_06: "reachable ex_06"
  using step[OF reachable_ex_level valid_d0 ex_06_update] .

lemma ex_scrolled_update: "update (D 0.005) d0 ex_level = Some ex_scrolled"
proof -
  have "- val (D (1 / 10)) < val (dsub (D 1) (D (1 / 200)))"
    by (simp add: val_simps rnd_defs)
  then show ?thesis
    by (simp add: ex_scrolled_def ex_level_def update_def isVisible_def Let_def d_iffs val_dneg
          val_dadd val_consts rnd64_val)
qed

lemma ex_scrolled_vals:
  "val (dsub (D 1) (D (1 / 200))) = 8962163258467287 / 2 ^ 53"
  "val (dsub (D (3 / 2)) (D (1 / 200))) = 1683220360729723 / 2 ^ 50"
  "val (dsub (D 2) (D (1 / 200))) = 2246170314151035 / 2 ^ 50"
  by (simp_all add: val_simps rnd_defs)

lemma ex_edge_add: "addBarrier d_edge Level_init = Some ex_edge"
  by (simp add: addBarrier_def Level_init_def ex_edge_def d_edge_def Type_of_int_def Let_def
        consts_defs d_iffs val_simps rnd64_consts, simp add: rnd_defs)

subsection \<open>The height of a new barrier\<close>

lemma val_height_span:
  "val (dsub (D (3 / 10)) (D (1 / 10))) = 7205759403792793 / 2 ^ 55"
  unfolding val_dsub val_consts by (simp add: rnd_defs)

lemma val_barrier_height:
  "val (barrier_height m) =
     rnd64 (3602879701896397 / 2 ^ 55
       + rnd64 (min (rnd64 (val m / 100)) 1 * (7205759403792793 / 2 ^ 55)))"
proof -
  have "val (barrier_height m) =
      rnd64 (val (D (1 / 10)) + rnd64 (min (rnd64 (val m / val (D 100))) (val (D 1))
        * val (dsub (D (3 / 10)) (D (1 / 10)))))"
    by (simp add: barrier_height_def initialBarrierHeight_def Let_def val_dadd val_dmul val_min val_ddiv)
  then show ?thesis by (simp only: val_consts val_height_span)
qed

lemma barrier_height_end:
  "rnd64 (3602879701896397 / 2 ^ 55 + rnd64 (1 * (7205759403792793 / 2 ^ 55))) = 5404319552844595 / 2 ^ 54"
  "rnd64 (3602879701896397 / 2 ^ 55 + rnd64 (0 * (7205759403792793 / 2 ^ 55))) = 3602879701896397 / 2 ^ 55"
  by (simp_all add: rnd_defs)

lemma barrier_height_zero: "barrier_height (D 0) = D 0.1"
proof -
  have "min (rnd64 (val (D 0) / 100)) 1 = 0" by (simp add: val_consts rnd64_consts)
  then have "val (barrier_height (D 0)) = 3602879701896397 / 2 ^ 55"
    by (simp only: val_barrier_height barrier_height_end)
  then show ?thesis by (simp add: double_eq_iff val_consts)
qed

lemma barrier_height_cap:
  assumes "D 100 \<le> m"
  shows "barrier_height m = D 0.3"
proof -
  have "1 \<le> val m / 100" using assms by (simp add: double_le_iff val_consts)
  then have "rnd64 1 \<le> rnd64 (val m / 100)" by (rule rnd64_mono)
  then have "min (rnd64 (val m / 100)) 1 = 1" by (simp add: rnd64_consts)
  then have "val (barrier_height m) = 5404319552844595 / 2 ^ 54"
    by (simp only: val_barrier_height barrier_height_end)
  then show ?thesis by (simp add: double_eq_iff val_consts)
qed

lemma barrier_height_mono:
  assumes "m \<le> m'"
  shows "barrier_height m \<le> barrier_height m'"
proof -
  have "val m / 100 \<le> val m' / 100" using assms by (simp add: double_le_iff)
  then have "rnd64 (val m / 100) \<le> rnd64 (val m' / 100)" by (rule rnd64_mono)
  then have "min (rnd64 (val m / 100)) 1 \<le> min (rnd64 (val m' / 100)) 1" by simp
  then have "min (rnd64 (val m / 100)) 1 * (7205759403792793 / 2 ^ 55)
      \<le> min (rnd64 (val m' / 100)) 1 * (7205759403792793 / 2 ^ 55)"
    by (intro mult_right_mono) simp_all
  then have "rnd64 (min (rnd64 (val m / 100)) 1 * (7205759403792793 / 2 ^ 55))
      \<le> rnd64 (min (rnd64 (val m' / 100)) 1 * (7205759403792793 / 2 ^ 55))"
    by (rule rnd64_mono)
  then have "rnd64 (3602879701896397 / 2 ^ 55
        + rnd64 (min (rnd64 (val m / 100)) 1 * (7205759403792793 / 2 ^ 55)))
      \<le> rnd64 (3602879701896397 / 2 ^ 55
        + rnd64 (min (rnd64 (val m' / 100)) 1 * (7205759403792793 / 2 ^ 55)))"
    by (intro rnd64_mono) simp
  then show ?thesis by (simp only: double_le_iff val_barrier_height)
qed

lemma barrier_height_error:
  assumes "0 \<le> val m"
  shows "\<bar>val (barrier_height m) - (0.1 + min (val m / 100) 1 * 0.2)\<bar> \<le> 1 / 2 ^ 53"
proof -
  define u :: real where "u = 1 / 2 ^ 53"
  define t where "t = val m / 100"
  define q where "q = rnd64 t"
  define f where "f = min q 1"
  define f' where "f' = min t 1"
  define c :: real where "c = 7205759403792793 / 2 ^ 55"
  define a :: real where "a = 3602879701896397 / 2 ^ 55"
  define g where "g = f * c"
  define p where "p = rnd64 g"
  define h where "h = rnd64 (a + p)"
  have u: "0 < u" "u \<le> 1 / 10" by (simp_all add: u_def)
  have c: "0 \<le> c" "c \<le> 1 / 5" "1 / 5 - 3 / 20 * u \<le> c" by (simp_all add: c_def u_def)
  have a: "1 / 10 \<le> a" "a \<le> 1 / 10 + u / 20" by (simp_all add: a_def u_def)
  have t0: "0 \<le> t" using assms by (simp add: t_def)
  have q0: "0 \<le> q" unfolding q_def using t0 by (rule rnd64_nonneg)
  have qe: "\<bar>q - t\<bar> \<le> t * u" using rnd64_error[of t] t0 by (simp add: q_def u_def)
  have f01: "0 \<le> f" "f \<le> 1" using q0 by (simp_all add: f_def)
  have ff: "\<bar>f - f'\<bar> \<le> u"
  proof (cases "t \<le> 1")
    case True
    then have "t * u \<le> 1 * u" using u by (intro mult_right_mono) simp_all
    with qe have "\<bar>q - t\<bar> \<le> u" by linarith
    moreover have "rnd64 t \<le> rnd64 1" using True by (rule rnd64_mono)
    then have "q \<le> 1" by (simp add: q_def rnd64_consts)
    ultimately show ?thesis using True by (simp add: f_def f'_def)
  next
    case False
    then have "rnd64 1 \<le> rnd64 t" by (intro rnd64_mono) simp
    then have "1 \<le> q" by (simp add: q_def rnd64_consts)
    then show ?thesis using False u by (simp add: f_def f'_def)
  qed
  have g0: "0 \<le> g" using f01 c by (simp add: g_def)
  have g1: "g \<le> f * (1 / 5)" unfolding g_def using f01 c by (intro mult_left_mono) simp_all
  have "f * (1 / 5 - 3 / 20 * u) \<le> g" unfolding g_def using f01 c by (intro mult_left_mono) simp_all
  moreover have "f * u \<le> 1 * u" using f01 u by (intro mult_right_mono) simp_all
  ultimately have g2: "f / 5 - 3 / 20 * u \<le> g" by (simp add: algebra_simps)
  have g3: "g \<le> 1 / 5" using g1 f01 by simp
  have "g * u \<le> 1 / 5 * u" using g3 u by (intro mult_right_mono) simp_all
  moreover have "\<bar>p - g\<bar> \<le> g * u" using rnd64_error[of g] g0 by (simp add: p_def u_def)
  ultimately have pe: "\<bar>p - g\<bar> \<le> u / 5" by simp
  have p0: "0 \<le> p" unfolding p_def using g0 by (rule rnd64_nonneg)
  have ap: "0 \<le> a + p" "a + p \<le> 2 / 5" using a p0 pe g3 u by linarith+
  then have "(a + p) * u \<le> 2 / 5 * u" using u by (intro mult_right_mono) simp_all
  moreover have "\<bar>h - (a + p)\<bar> \<le> (a + p) * u" using rnd64_error[of "a + p"] ap by (simp add: h_def u_def)
  ultimately have he: "\<bar>h - (a + p)\<bar> \<le> 2 / 5 * u" by simp
  have "\<bar>h - (1 / 10 + f' / 5)\<bar> \<le> u"
    using ff pe he g1 g2 a by linarith
  moreover have "val (barrier_height m) = h"
    by (simp only: val_barrier_height h_def p_def g_def f_def q_def t_def c_def a_def)
  ultimately show ?thesis by (simp add: f'_def t_def u_def)
qed

lemma val_barrier_height_10: "val (barrier_height (D 10)) = 8646911284551353 / 2 ^ 56"
proof -
  have "rnd64 (val (D 10) / 100) = 3602879701896397 / 2 ^ 55"
    by (simp add: val_simps rnd64_consts)
  then have "val (barrier_height (D 10)) =
      rnd64 (3602879701896397 / 2 ^ 55
        + rnd64 (min (3602879701896397 / 2 ^ 55) 1 * (7205759403792793 / 2 ^ 55)))"
    by (simp only: val_barrier_height)
  also have "\<dots> = 8646911284551353 / 2 ^ 56" by (simp add: rnd_defs)
  finally show ?thesis .
qed

lemma val_barrier_height_10': "val (barrier_height (D (10 + 1 / 2 ^ 49))) = 8646911284551353 / 2 ^ 56"
proof -
  have v: "val (D (10 + 1 / 2 ^ 49)) = 5629499534213121 / 2 ^ 49" by (simp add: val_simps rnd_defs)
  have "rnd64 (val (D (10 + 1 / 2 ^ 49)) / 100) = 7205759403792795 / 2 ^ 56"
    unfolding v by (simp add: rnd_defs)
  then have "val (barrier_height (D (10 + 1 / 2 ^ 49))) =
      rnd64 (3602879701896397 / 2 ^ 55
        + rnd64 (min (7205759403792795 / 2 ^ 56) 1 * (7205759403792793 / 2 ^ 55)))"
    by (simp only: val_barrier_height)
  also have "\<dots> = 8646911284551353 / 2 ^ 56" by (simp add: rnd_defs)
  finally show ?thesis .
qed

subsection \<open>The spacing after one call of update\<close>

lemma shift_error:
  assumes "\<bar>val y - val s\<bar> \<le> M"
  shows "\<bar>val (dsub y s) - (val y - val s)\<bar> \<le> M / 2 ^ 53" and "\<bar>val (dsub y s)\<bar> \<le> 2 * M"
proof -
  have "\<bar>val y - val s\<bar> / 2 ^ 53 \<le> M / 2 ^ 53" using assms by (simp add: divide_right_mono)
  with rnd64_error[of "val y - val s"]
  show "\<bar>val (dsub y s) - (val y - val s)\<bar> \<le> M / 2 ^ 53" unfolding val_dsub by linarith
  have "\<bar>rnd64 (val y - val s)\<bar> \<le> 2 * \<bar>val y - val s\<bar>" by (rule rnd64_abs_le)
  also have "\<dots> \<le> 2 * M" using assms by simp
  finally show "\<bar>val (dsub y s)\<bar> \<le> 2 * M" by (simp add: val_dsub)
qed

lemma spaced_within_shift:
  assumes "spaced_within e a b" "\<bar>val (yPos a) - val s\<bar> \<le> M" "\<bar>val (yPos b) - val s\<bar> \<le> M"
  shows "spaced_within (e + (2 * M + 1) / 2 ^ 53)
           (a\<lparr>yPos := dsub (yPos a) s\<rparr>) (b\<lparr>yPos := dsub (yPos b) s\<rparr>)"
proof -
  define k :: real where "k = M / 2 ^ 53"
  have "(2 * M + 1) / 2 ^ 53 = k + k + 1 / 2 ^ 53"
    by (simp add: add_divide_distrib k_def)
  moreover have "(0 :: real) \<le> 1 / 2 ^ 53" by simp
  moreover have "\<bar>val (yPos b) - val (yPos a) - val barrierInterval\<bar> \<le> e"
    using assms(1) by (simp add: spaced_within_def)
  moreover note shift_error(1)[OF assms(2), folded k_def] shift_error(1)[OF assms(3), folded k_def]
  ultimately have "\<bar>val (dsub (yPos b) s) - val (dsub (yPos a) s) - val barrierInterval\<bar>
      \<le> e + (2 * M + 1) / 2 ^ 53"
    by linarith
  then show ?thesis by (simp add: spaced_within_def)
qed

lemma spaced_within_add:
  assumes "addBarrier d l0 = Some l1" "\<bar>val (yPos (last (barriers l0)))\<bar> \<le> 2 * M" "0 \<le> e"
  shows "spaced_within (e + (2 * M + 1) / 2 ^ 53) (last (barriers l0)) (last (barriers l1))"
proof -
  let ?y = "val (yPos (last (barriers l0)))"
  have w: "val barrierInterval = 1 / 2" by (simp add: barrierInterval_def val_simps rnd64_consts)
  from addBarrier_SomeD(1)[OF assms(1)]
  have "yPos (last (barriers l1)) = dadd (yPos (last (barriers l0))) barrierInterval" by auto
  then have y: "val (yPos (last (barriers l1))) = rnd64 (?y + 1 / 2)" by (simp add: val_dadd w)
  have "\<bar>?y + 1 / 2\<bar> \<le> 2 * M + 1" using assms(2) by linarith
  then have "\<bar>?y + 1 / 2\<bar> / 2 ^ 53 \<le> (2 * M + 1) / 2 ^ 53" by (simp add: divide_right_mono)
  with rnd64_error[of "?y + 1 / 2"] have "\<bar>rnd64 (?y + 1 / 2) - (?y + 1 / 2)\<bar> \<le> (2 * M + 1) / 2 ^ 53"
    by linarith
  then have "\<bar>rnd64 (?y + 1 / 2) - ?y - 1 / 2\<bar> \<le> e + (2 * M + 1) / 2 ^ 53"
    using assms(3) by linarith
  then show ?thesis unfolding spaced_within_def y w .
qed

lemma update_spaced_within:
  assumes u: "update s d lv = Some lv'" and P: "successively (spaced_within e) (barriers lv)"
    and M: "\<forall>b\<in>set (barriers lv). \<bar>val (yPos b) - val s\<bar> \<le> M" and e: "0 \<le> e"
  shows "successively (spaced_within (e + (2 * M + 1) / 2 ^ 53)) (barriers lv')"
proof (rule update_successively_tail[OF u successively_conj_all[OF P M]])
  fix a b
  assume "spaced_within e a b \<and> \<bar>val (yPos a) - val s\<bar> \<le> M \<and> \<bar>val (yPos b) - val s\<bar> \<le> M"
  then show "spaced_within (e + (2 * M + 1) / 2 ^ 53)
           (a\<lparr>yPos := dsub (yPos a) s\<rparr>) (b\<lparr>yPos := dsub (yPos b) s\<rparr>)"
    using spaced_within_shift by blast
next
  fix l0
  assume l0: "barriers l0 = tl (map (\<lambda>b. b\<lparr>yPos := dsub (yPos b) s\<rparr>) (barriers lv))"
    and a: "addBarrier d l0 = Some lv'"
  from addBarrier_SomeD(2)[OF a] have ne: "barriers l0 \<noteq> []" .
  then have "last (barriers l0) \<in> set (barriers l0)" by simp
  then have "last (barriers l0) \<in> set (map (\<lambda>b. b\<lparr>yPos := dsub (yPos b) s\<rparr>) (barriers lv))"
    unfolding l0 by (cases "barriers lv") auto
  then obtain b0 where b0: "b0 \<in> set (barriers lv)" "last (barriers l0) = b0\<lparr>yPos := dsub (yPos b0) s\<rparr>"
    by auto
  from M b0(1) have "\<bar>val (yPos b0) - val s\<bar> \<le> M" by blast
  from shift_error(2)[OF this] have "\<bar>val (yPos (last (barriers l0)))\<bar> \<le> 2 * M"
    by (simp add: b0(2))
  from spaced_within_add[OF a this e]
  show "spaced_within (e + (2 * M + 1) / 2 ^ 53) (last (barriers l0)) (last (barriers lv'))" .
qed

lemma Level_new_spaced: "\<exists>lv0. Level_new rng = Some lv0 \<and> successively spaced (barriers lv0)"
proof -
  have "val (D (3 / 2)) - val (D 1) = val barrierInterval"
    "val (D 2) - val (D (3 / 2)) = val barrierInterval"
    by (simp_all add: barrierInterval_def val_simps rnd64_consts)
  then show ?thesis using Level_new_shape[of rng] by (auto simp: spaced_def)
qed

subsection \<open>An interval of the hole\<close>

text \<open>
  The values of the band limits, the binary64 number next above \<open>0.4\<close>, and the range of
  \<open>leftToHole\<close> of a new barrier.
\<close>

lemma band_vals:
  "val sideWallWidth = 3602879701896397 / 2 ^ 55"
  "val (dsub (D 1) sideWallWidth) = 8106479329266893 / 2 ^ 53"
  "val (ddiv holeWidth (D 2)) = 1 / 8"
  "val holeWidth = 1 / 4"
  "val (D (2 / 5)) = 3602879701896397 / 2 ^ 53"
  "val (D (3 / 5)) = 5404319552844595 / 2 ^ 53"
  "val (dsub (D (2 / 5)) (ddiv holeWidth (D 2))) = 2476979795053773 / 2 ^ 53"
  "val (dadd (D (3 / 5)) (ddiv holeWidth (D 2))) = 6530219459687219 / 2 ^ 53"
  "val (D (7 / 10)) = 3152519739159347 / 2 ^ 52"
  "val (D (1 / 5)) = 3602879701896397 / 2 ^ 54"
  by (simp_all add: consts_defs val_simps rnd64_consts, (simp_all add: rnd_defs)?)

lemma band_rnds:
  "rnd64 (1 - 5404319552844595 / 2 ^ 53) = 3602879701896397 / 2 ^ 53"
  "rnd64 (1 - 3602879701896397 / 2 ^ 53) = 5404319552844595 / 2 ^ 53"
  "rnd64 (3602879701896397 / 2 ^ 53 - 1 / 8) = 2476979795053773 / 2 ^ 53"
  "rnd64 (5404319552844595 / 2 ^ 53 - 1 / 8) = 4278419646001971 / 2 ^ 53"
  "rnd64 (7205759403792795 / 2 ^ 54 - 1 / 8) = 4953959590107547 / 2 ^ 54"
  "rnd64 (5404319552844595 / 2 ^ 53 + 1 / 4) = 7656119366529843 / 2 ^ 53"
  "rnd64 (5404319552844595 / 2 ^ 53 + 1 / 8) = 6530219459687219 / 2 ^ 53"
  "rnd64 (2476979795053773 / 2 ^ 53 + 1 / 8) = 3602879701896397 / 2 ^ 53"
  by (simp_all add: rnd_defs)

lemma double_above_04:
  assumes "D 0.4 < p"
  shows "7205759403792795 / 2 ^ 54 \<le> val p"
proof (cases "val p < 1 / 2")
  case True
  from assms have g: "3602879701896397 / 2 ^ 53 < val p"
    by (simp add: double_less_iff band_vals)
  then have p0: "0 < val p" by simp
  have "binade (val p) = - 2"
  proof (rule binade_unique)
    show "pow2 (- 2) \<le> val p" using g by (simp add: pow2_def)
    show "val p < 2 * pow2 (- 2)" using True by (simp add: pow2_def)
  qed
  with rnd64_fix_grid[OF rnd64_val p0] obtain n :: int where n: "val p = of_int n * pow2 (- 54)"
    by auto
  have p54: "pow2 (- 54) = 1 / 2 ^ 54" by (simp add: pow2_def)
  from g have "(7205759403792794 :: real) < of_int n" unfolding n p54 by simp
  then have "7205759403792794 < n" by linarith
  then have "7205759403792795 \<le> n" by simp
  then have "(7205759403792795 :: real) \<le> of_int n" by linarith
  then show ?thesis unfolding n p54 by (simp add: divide_right_mono)
next
  case False
  then show ?thesis by simp
qed

lemma leftToHole_bounds:
  assumes a: "addBarrier d lv = Some lv'" and p1: "D 0.4 \<le> pos d" and p2: "pos d \<le> D 0.6"
  shows "2476979795053773 / 2 ^ 53 \<le> val (leftToHole (last (barriers lv')))"
    and "val (leftToHole (last (barriers lv'))) \<le> 5404319552844595 / 2 ^ 53"
    and "\<not> (type (last (barriers lv)) = Slit \<and> pos d = D 0.4) \<Longrightarrow>
           2476979795053773 / 2 ^ 53 < val (leftToHole (last (barriers lv')))"
proof -
  let ?l = "val (leftToHole (last (barriers lv')))"
  let ?p = "val (pos d)"
  from addBarrier_SomeD(1)[OF a] obtain b where
    lv': "lv' = lv\<lparr>barriers := barriers lv @ [b]\<rparr>" and
    L: "type (last (barriers lv)) = Left \<longrightarrow> leftToHole b = pos d" and
    R: "type (last (barriers lv)) = Right \<longrightarrow> leftToHole b = dsub (D 1) (pos d)" and
    S: "type (last (barriers lv)) = Slit \<longrightarrow> leftToHole b = dsub (pos d) (ddiv holeWidth (D 2))"
    by blast
  have b: "last (barriers lv') = b" using lv' by simp
  have P1: "3602879701896397 / 2 ^ 53 \<le> ?p" using p1 by (simp add: double_le_iff band_vals)
  have P2: "?p \<le> 5404319552844595 / 2 ^ 53" using p2 by (simp add: double_le_iff band_vals)
  have all: "2476979795053773 / 2 ^ 53 \<le> ?l \<and> ?l \<le> 5404319552844595 / 2 ^ 53
    \<and> (\<not> (type (last (barriers lv)) = Slit \<and> pos d = D 0.4) \<longrightarrow> 2476979795053773 / 2 ^ 53 < ?l)"
  proof (cases "type (last (barriers lv))")
    case Left
    with L have "?l = ?p" by (simp add: b)
    with P1 P2 show ?thesis by simp
  next
    case Right
    with R have l: "?l = rnd64 (1 - ?p)" by (simp add: b val_dsub val_consts)
    have "rnd64 (1 - 5404319552844595 / 2 ^ 53) \<le> rnd64 (1 - ?p)"
      using P2 by (intro rnd64_mono) simp
    then have 1: "3602879701896397 / 2 ^ 53 \<le> ?l" by (simp only: band_rnds l)
    have "rnd64 (1 - ?p) \<le> rnd64 (1 - 3602879701896397 / 2 ^ 53)"
      using P1 by (intro rnd64_mono) simp
    then have 2: "?l \<le> 5404319552844595 / 2 ^ 53" by (simp only: band_rnds l)
    from 1 2 show ?thesis by simp
  next
    case Slit
    with S have l: "?l = rnd64 (?p - 1 / 8)" by (simp add: b val_dsub band_vals)
    have "rnd64 (3602879701896397 / 2 ^ 53 - 1 / 8) \<le> rnd64 (?p - 1 / 8)"
      using P1 by (intro rnd64_mono) simp
    then have 1: "2476979795053773 / 2 ^ 53 \<le> ?l" by (simp only: band_rnds l)
    have "rnd64 (?p - 1 / 8) \<le> rnd64 (5404319552844595 / 2 ^ 53 - 1 / 8)"
      using P2 by (intro rnd64_mono) simp
    then have "?l \<le> 4278419646001971 / 2 ^ 53" by (simp only: band_rnds l)
    then have 2: "?l \<le> 5404319552844595 / 2 ^ 53" by simp
    have 3: "2476979795053773 / 2 ^ 53 < ?l" if "pos d \<noteq> D 0.4"
    proof -
      from that p1 have "D 0.4 < pos d" by simp
      from double_above_04[OF this] have "7205759403792795 / 2 ^ 54 - 1 / 8 \<le> ?p - 1 / 8" by simp
      then have "rnd64 (7205759403792795 / 2 ^ 54 - 1 / 8) \<le> rnd64 (?p - 1 / 8)"
        by (rule rnd64_mono)
      then have "4953959590107547 / 2 ^ 54 \<le> ?l" by (simp only: band_rnds l)
      then show ?thesis by simp
    qed
    show ?thesis
    proof (intro conjI impI)
      show "2476979795053773 / 2 ^ 53 \<le> ?l" by (rule 1)
      show "?l \<le> 5404319552844595 / 2 ^ 53" by (rule 2)
      assume "\<not> (type (last (barriers lv)) = Slit \<and> pos d = D 0.4)"
      with Slit have "pos d \<noteq> D 0.4" by simp
      then show "2476979795053773 / 2 ^ 53 < ?l" by (rule 3)
    qed
  qed
  from all show "2476979795053773 / 2 ^ 53 \<le> ?l" "?l \<le> 5404319552844595 / 2 ^ 53" by blast+
  from all show "\<not> (type (last (barriers lv)) = Slit \<and> pos d = D 0.4) \<Longrightarrow>
           2476979795053773 / 2 ^ 53 < ?l" by blast
qed

lemma passableI:
  fixes lo hi x :: double
  assumes "val lo < val x" "val x < val hi"
    "3602879701896397 / 2 ^ 55 \<le> val lo" "val hi \<le> 8106479329266893 / 2 ^ 53"
    "\<forall>y. lo < y \<and> y < hi \<longrightarrow> in_hole b y"
    "val lo < 6530219459687219 / 2 ^ 53" "2476979795053773 / 2 ^ 53 \<le> val hi"
    "Q \<Longrightarrow> 2476979795053773 / 2 ^ 53 \<le> val x \<and> val x \<le> 6530219459687219 / 2 ^ 53"
  shows "\<exists>lo hi x. lo < x \<and> x < hi \<and> sideWallWidth \<le> lo \<and> hi \<le> dsub (D 1) sideWallWidth
     \<and> (\<forall>y. lo < y \<and> y < hi \<longrightarrow> in_hole b y \<and> \<not> Barrier_hit b y)
     \<and> lo < dadd (D 0.6) (ddiv holeWidth (D 2)) \<and> dsub (D 0.4) (ddiv holeWidth (D 2)) \<le> hi
     \<and> (Q \<longrightarrow> dsub (D 0.4) (ddiv holeWidth (D 2)) \<le> x \<and> x \<le> dadd (D 0.6) (ddiv holeWidth (D 2)))"
proof -
  have 1: "lo < x" "x < hi" using assms(1,2) by (simp_all add: double_less_iff)
  have 2: "sideWallWidth \<le> lo" using assms(3) by (simp add: double_le_iff band_vals)
  have 3: "hi \<le> dsub (D 1) sideWallWidth" using assms(4) by (simp add: double_le_iff band_vals)
  have 4: "\<forall>y. lo < y \<and> y < hi \<longrightarrow> in_hole b y \<and> \<not> Barrier_hit b y"
    using assms(5) by (simp add: Barrier_hit_def)
  have 5: "lo < dadd (D 0.6) (ddiv holeWidth (D 2))"
    using assms(6) by (simp add: double_less_iff band_vals)
  have 6: "dsub (D 0.4) (ddiv holeWidth (D 2)) \<le> hi"
    using assms(7) by (simp add: double_le_iff band_vals)
  have 7: "Q \<longrightarrow> dsub (D 0.4) (ddiv holeWidth (D 2)) \<le> x \<and> x \<le> dadd (D 0.6) (ddiv holeWidth (D 2))"
    using assms(8) by (simp add: double_le_iff band_vals)
  from 1 2 3 4 5 6 7 show ?thesis by blast
qed

lemma band_eq:
  "(dsub (D 0.4) (ddiv holeWidth (D 2)) \<le> z \<longleftrightarrow> 0.275 \<le> val z)"
  "(z \<le> dadd (D 0.6) (ddiv holeWidth (D 2)) \<longleftrightarrow> val z \<le> 0.725)"
proof -
  have lo: "rnd64 (11 / 40) = 2476979795053773 / 2 ^ 53" by (simp add: rnd_defs)
  have hi: "rnd64 (29 / 40) = 6530219459687219 / 2 ^ 53" by (simp add: rnd_defs)
  have "2476979795053773 / 2 ^ 53 \<le> val z \<longleftrightarrow> 11 / 40 \<le> val z"
  proof
    assume "2476979795053773 / 2 ^ 53 \<le> val z" then show "11 / 40 \<le> val z" by simp
  next
    assume "11 / 40 \<le> val z"
    from rnd_le_val[OF this] show "2476979795053773 / 2 ^ 53 \<le> val z" by (simp only: lo)
  qed
  then show "(dsub (D 0.4) (ddiv holeWidth (D 2)) \<le> z \<longleftrightarrow> 0.275 \<le> val z)"
    by (simp add: double_le_iff band_vals)
  have "val z \<le> 6530219459687219 / 2 ^ 53 \<longleftrightarrow> val z \<le> 29 / 40"
  proof
    assume "val z \<le> 6530219459687219 / 2 ^ 53" then show "val z \<le> 29 / 40" by simp
  next
    assume "val z \<le> 29 / 40"
    from val_le_rnd[OF this] show "val z \<le> 6530219459687219 / 2 ^ 53" by (simp only: hi)
  qed
  then show "(z \<le> dadd (D 0.6) (ddiv holeWidth (D 2)) \<longleftrightarrow> val z \<le> 0.725)"
    by (simp add: double_le_iff band_vals)
qed

lemma passable_new:
  assumes a: "addBarrier d lv = Some lv'" and p1: "D 0.4 \<le> pos d" and p2: "pos d \<le> D 0.6"
  shows "\<exists>lo hi x. lo < x \<and> x < hi \<and> sideWallWidth \<le> lo \<and> hi \<le> dsub (D 1) sideWallWidth
     \<and> (\<forall>y. lo < y \<and> y < hi \<longrightarrow>
           in_hole (last (barriers lv')) y \<and> \<not> Barrier_hit (last (barriers lv')) y)
     \<and> lo < dadd (D 0.6) (ddiv holeWidth (D 2)) \<and> dsub (D 0.4) (ddiv holeWidth (D 2)) \<le> hi
     \<and> (\<not> (type (last (barriers lv)) = Slit \<and> type (last (barriers lv')) = Right
              \<and> pos d = D 0.4) \<longrightarrow>
          dsub (D 0.4) (ddiv holeWidth (D 2)) \<le> x \<and> x \<le> dadd (D 0.6) (ddiv holeWidth (D 2)))"
proof -
  let ?b = "last (barriers lv')"
  let ?l = "leftToHole ?b"
  let ?Q = "\<not> (type (last (barriers lv)) = Slit \<and> type ?b = Right \<and> pos d = D 0.4)"
  note lb = leftToHole_bounds(1)[OF a p1 p2] and ub = leftToHole_bounds(2)[OF a p1 p2]
    and st = leftToHole_bounds(3)[OF a p1 p2]
  show ?thesis
  proof (cases "type ?b")
    case Left
    show ?thesis
    proof (rule passableI[of ?l "D 0.7" "dsub (D 1) sideWallWidth" ?b ?Q])
      show "\<forall>y. ?l < y \<and> y < dsub (D 1) sideWallWidth \<longrightarrow> in_hole ?b y"
        using Left by (simp add: in_hole_def)
    qed (use lb ub in \<open>simp_all add: band_vals\<close>)
  next
    case Right
    have h: "\<forall>y. sideWallWidth < y \<and> y < ?l \<longrightarrow> in_hole ?b y"
      using Right by (simp add: in_hole_def)
    show ?thesis
    proof (cases ?Q)
      case True
      with Right have "\<not> (type (last (barriers lv)) = Slit \<and> pos d = D 0.4)" by simp
      from st[OF this] have s: "2476979795053773 / 2 ^ 53 < val ?l" .
      show ?thesis
        by (rule passableI[of sideWallWidth "dsub (D 0.4) (ddiv holeWidth (D 2))" ?l ?b ?Q])
          (use lb ub s h in \<open>simp_all add: band_vals\<close>)
    next
      case False
      show ?thesis
        by (rule passableI[of sideWallWidth "D 0.2" ?l ?b ?Q])
          (use lb ub h False in \<open>simp_all add: band_vals\<close>)
    qed
  next
    case Slit
    define u :: real where "u = 1 / 2 ^ 53"
    have u: "0 \<le> u" "u < 1 / 32" by (simp_all add: u_def)
    let ?L = "val ?l"
    have L: "1 / 4 \<le> ?L" "?L \<le> 5 / 8" using lb ub by simp_all
    have e1: "\<bar>rnd64 (?L + 1 / 8) - (?L + 1 / 8)\<bar> \<le> u"
      unfolding u_def using L by (intro rnd64_near) simp_all
    have e2: "\<bar>rnd64 (?L + 1 / 4) - (?L + 1 / 4)\<bar> \<le> u"
      unfolding u_def using L by (intro rnd64_near) simp_all
    have x: "val (dadd ?l (ddiv holeWidth (D 2))) = rnd64 (?L + 1 / 8)"
      by (simp add: val_dadd band_vals)
    have hi: "val (dadd ?l holeWidth) = rnd64 (?L + 1 / 4)"
      by (simp add: val_dadd band_vals)
    have "?L + 1 / 4 \<le> 5404319552844595 / 2 ^ 53 + 1 / 4" using ub by simp
    then have "rnd64 (?L + 1 / 4) \<le> rnd64 (5404319552844595 / 2 ^ 53 + 1 / 4)" by (rule rnd64_mono)
    then have m1: "rnd64 (?L + 1 / 4) \<le> 7656119366529843 / 2 ^ 53" by (simp only: band_rnds)
    have "?L + 1 / 8 \<le> 5404319552844595 / 2 ^ 53 + 1 / 8" using ub by simp
    then have "rnd64 (?L + 1 / 8) \<le> rnd64 (5404319552844595 / 2 ^ 53 + 1 / 8)" by (rule rnd64_mono)
    then have m2: "rnd64 (?L + 1 / 8) \<le> 6530219459687219 / 2 ^ 53" by (simp only: band_rnds)
    have g1: "?L < rnd64 (?L + 1 / 8)" using e1 u by linarith
    have g2: "rnd64 (?L + 1 / 8) < rnd64 (?L + 1 / 4)" using e1 e2 u by linarith
    show ?thesis
    proof (rule passableI[of ?l "dadd ?l (ddiv holeWidth (D 2))" "dadd ?l holeWidth" ?b ?Q])
      show "\<forall>y. ?l < y \<and> y < dadd ?l holeWidth \<longrightarrow> in_hole ?b y"
        using Slit by (simp add: in_hole_def)
      show "val ?l < val (dadd ?l (ddiv holeWidth (D 2)))" unfolding x by (rule g1)
      show "val (dadd ?l (ddiv holeWidth (D 2))) < val (dadd ?l holeWidth)"
        unfolding x hi by (rule g2)
      show "3602879701896397 / 2 ^ 55 \<le> val ?l" using lb by simp
      show "val (dadd ?l holeWidth) \<le> 8106479329266893 / 2 ^ 53" unfolding hi using m1 by simp
      show "val ?l < 6530219459687219 / 2 ^ 53" using ub by simp
      show "2476979795053773 / 2 ^ 53 \<le> val (dadd ?l holeWidth)"
        unfolding hi using g1 g2 lb by linarith
      show "2476979795053773 / 2 ^ 53 \<le> val (dadd ?l (ddiv holeWidth (D 2)))
          \<and> val (dadd ?l (ddiv holeWidth (D 2))) \<le> 6530219459687219 / 2 ^ 53"
        unfolding x using g1 lb m2 by linarith
    qed
  qed
qed

section \<open>The claims\<close>

text \<open>
  Claim C1 (alternation). In every reachable level the deque never holds a \<^verbatim>\<open>Left\<close>
  barrier directly in front of another \<^verbatim>\<open>Left\<close>, nor a \<^verbatim>\<open>Right\<close> directly in
  front of another \<^verbatim>\<open>Right\<close>. Equivalently, the barrier that \<^verbatim>\<open>addBarrier\<close> appends
  is never \<^verbatim>\<open>Left\<close> behind a \<^verbatim>\<open>Left\<close> back, nor \<^verbatim>\<open>Right\<close> behind a
  \<^verbatim>\<open>Right\<close> back. A \<^verbatim>\<open>Slit\<close> can follow a barrier of any type: the draw
  \<open>d_slit\<close> yields one.
\<close>

theorem alternation_invariant:
  "(reachable lv \<longrightarrow> successively alt (barriers lv))
   \<and> (addBarrier d lv0 = Some lv1 \<longrightarrow> alt (last (barriers lv0)) (last (barriers lv1)))
   \<and> (barriers lv0 \<noteq> [] \<longrightarrow>
        valid_draw d_slit \<and> (\<exists>lv2. addBarrier d_slit lv0 = Some lv2 \<and> type (last (barriers lv2)) = Slit))"
proof (intro conjI impI)
  assume "reachable lv" then show "successively alt (barriers lv)" by (rule reachable_alt)
next
  assume "addBarrier d lv0 = Some lv1"
  then show "alt (last (barriers lv0)) (last (barriers lv1))"
    by (auto simp: alt_def dest!: addBarrier_SomeD(1))
next
  show "valid_draw d_slit" by (simp add: valid_draw_def d_slit_def d_iffs val_simps rnd64_consts)
next
  assume "barriers lv0 \<noteq> []"
  then show "\<exists>lv2. addBarrier d_slit lv0 = Some lv2 \<and> type (last (barriers lv2)) = Slit"
    by (rule addBarrier_slit)
qed

theorem alternation_invariant_witness:
  "reachable ex_far \<and> successively alt (barriers ex_far)
   \<and> addBarrier d0 ex_far = Some (ex_far\<lparr>barriers := barriers ex_far @
        [\<lparr>type = Right, leftToHole = D 0.5, height = barrier_height (D 10), yPos = D (- 7)\<rparr>]\<rparr>)
   \<and> alt (last (barriers ex_far))
        \<lparr>type = Right, leftToHole = D 0.5, height = barrier_height (D 10), yPos = D (- 7)\<rparr>
   \<and> barriers ex_far \<noteq> []"
proof -
  have a: "addBarrier d0 ex_far = Some (ex_far\<lparr>barriers := barriers ex_far @
        [\<lparr>type = Right, leftToHole = D 0.5, height = barrier_height (D 10), yPos = D (- 7)\<rparr>]\<rparr>)"
    by (simp add: eval_defs ex_far_def barrier_height_def rnd64_consts, simp add: rnd_defs)
  from alternation_invariant[of ex_far d0 ex_far "ex_far\<lparr>barriers := barriers ex_far @
        [\<lparr>type = Right, leftToHole = D 0.5, height = barrier_height (D 10), yPos = D (- 7)\<rparr>]\<rparr>"]
    reachable_ex_far a
  show ?thesis by (simp add: ex_far_def)
qed

text \<open>
  Claim C2. \<^verbatim>\<open>Level::hit(posX)\<close> returns true exactly when \<open>posX\<close> lies outside
  \<open>[sideWallWidth, 1 - sideWallWidth] = [0.1, 0.9]\<close> or some barrier of the level
  reports a hit; so it returns true for every \<open>posX < 0.1\<close> and every \<open>posX > 0.9\<close>,
  whatever the barriers. The limits are the binary64 numbers of the program:
  \<^verbatim>\<open>1.0 - sideWallWidth\<close> evaluates to the binary64 number nearest to \<open>0.9\<close>.
\<close>

theorem Level_hit_iff:
  "(Level_hit lv posX \<longleftrightarrow>
      posX < sideWallWidth \<or> posX > dsub (D 1) sideWallWidth
      \<or> (\<exists>b\<in>set (barriers lv). Barrier_hit b posX))
   \<and> sideWallWidth = D 0.1 \<and> dsub (D 1) sideWallWidth = D 0.9
   \<and> (posX < D 0.1 \<or> posX > D 0.9 \<longrightarrow> Level_hit lv posX)"
proof -
  have c: "dsub (D 1) sideWallWidth = D 0.9"
    by (simp add: sideWallWidth_def d_iffs val_simps rnd64_consts, simp add: rnd_defs)
  show ?thesis
    by (auto simp: Level_hit_def hit_loop_iff c) (simp_all add: sideWallWidth_def)
qed

theorem Level_hit_iff_witness:
  "Level_hit ex_level (D 0.05) \<and> Level_hit ex_level (D 0.95) \<and> \<not> Level_hit ex_level (D 0.5)
   \<and> Level_hit (ex_level\<lparr>barriers :=
        [\<lparr>type = Left, leftToHole = D 0.5, height = D 0.1, yPos = D 0.15\<rparr>]\<rparr>) (D 0.3)"
proof -
  let ?lv = "ex_level\<lparr>barriers := [\<lparr>type = Left, leftToHole = D 0.5, height = D 0.1, yPos = D 0.15\<rparr>]\<rparr>"
  have c: "D 0.05 < D 0.1" "D 0.95 > D 0.9"
    "\<not> D 0.5 < sideWallWidth" "\<not> D 0.5 > dsub (D 1) sideWallWidth"
    by (simp_all add: sideWallWidth_def d_iffs val_simps rnd_defs)
  have 1: "Level_hit ex_level (D 0.05)"
    using Level_hit_iff[of ex_level "D 0.05"] c by blast
  have 2: "Level_hit ex_level (D 0.95)"
    using Level_hit_iff[of ex_level "D 0.95"] c by blast
  have "\<not> (\<exists>b\<in>set (barriers ex_level). Barrier_hit b (D 0.5))"
    by (simp add: ex_level_def Barrier_hit_def in_hole_def consts_defs d_iffs val_simps rnd64_consts,
        (simp add: rnd_defs)?)
  then have 3: "\<not> Level_hit ex_level (D 0.5)"
    using Level_hit_iff[of ex_level "D 0.5"] c by blast
  have "\<exists>b\<in>set (barriers ?lv). Barrier_hit b (D 0.3)"
    by (simp add: Barrier_hit_def in_hole_def consts_defs d_iffs val_simps rnd64_consts,
        (simp add: rnd_defs)?)
  then have 4: "Level_hit ?lv (D 0.3)"
    using Level_hit_iff[of ?lv "D 0.3"] by blast
  from 1 2 3 4 show ?thesis by blast
qed

text \<open>
  Claim C3, amended. For a \<^verbatim>\<open>Slit\<close> barrier, \<^verbatim>\<open>Barrier::hit(x)\<close> is false for every
  \<open>x\<close> with \<open>leftToHole < x < leftToHole + holeWidth\<close>, where the sum is the rounded
  binary64 sum that the program computes, whatever the vertical position; for every
  other \<open>x\<close> it is true exactly when \<open>yPos \<le> 0.2 \<le> yPos + height\<close>, again with the
  rounded sum and the binary64 literal \<open>0.2\<close>. The hole is \<open>holeWidth = 0.25\<close> wide, and
  \<open>0.25\<close> is a binary64 number. The hole of the program lies inside the exact open
  interval from \<open>leftToHole\<close> to \<open>leftToHole + 0.25\<close> and misses at most one binary64
  number of it: an \<open>x\<close> of the exact interval is in the hole or is the rounded sum
  itself. Likewise the vertical test of the program holds whenever the exact one does,
  and where it holds without the exact one the rounded sum is \<open>0.2\<close>. (The slit
  \<open>ex_slit\<close> has a rounded sum inside the exact interval, and \<^verbatim>\<open>hit\<close> is true there.)
\<close>

theorem slit_hit:
  assumes "type b = Slit"
  shows "(leftToHole b < x \<and> x < dadd (leftToHole b) holeWidth \<longrightarrow> \<not> Barrier_hit b x)
    \<and> (\<not> (leftToHole b < x \<and> x < dadd (leftToHole b) holeWidth) \<longrightarrow>
         (Barrier_hit b x \<longleftrightarrow> yPos b \<le> D 0.2 \<and> D 0.2 \<le> dadd (yPos b) (height b)))
    \<and> holeWidth = D 0.25 \<and> val (D 0.25) = 0.25
    \<and> (leftToHole b < x \<and> x < dadd (leftToHole b) holeWidth \<longrightarrow>
         val (leftToHole b) < val x \<and> val x < val (leftToHole b) + 0.25)
    \<and> (val (leftToHole b) < val x \<and> val x < val (leftToHole b) + 0.25 \<longrightarrow>
         (leftToHole b < x \<and> x < dadd (leftToHole b) holeWidth)
         \<or> x = dadd (leftToHole b) holeWidth)
    \<and> (val (D 0.2) \<le> val (yPos b) + val (height b) \<longrightarrow> D 0.2 \<le> dadd (yPos b) (height b))
    \<and> (D 0.2 \<le> dadd (yPos b) (height b) \<longrightarrow>
         val (D 0.2) \<le> val (yPos b) + val (height b) \<or> dadd (yPos b) (height b) = D 0.2)"
proof -
  have w: "val holeWidth = 0.25" by (simp add: holeWidth_def val_simps rnd64_consts)
  have a: "leftToHole b < x \<and> x < dadd (leftToHole b) holeWidth \<longrightarrow>
         val (leftToHole b) < val x \<and> val x < val (leftToHole b) + 0.25"
    using val_less_rnd[of x "val (leftToHole b) + val holeWidth"]
    by (auto simp: double_less_iff val_dadd w)
  have b: "val (leftToHole b) < val x \<and> val x < val (leftToHole b) + 0.25 \<longrightarrow>
         (leftToHole b < x \<and> x < dadd (leftToHole b) holeWidth)
         \<or> x = dadd (leftToHole b) holeWidth"
    using val_le_rnd[of x "val (leftToHole b) + val holeWidth"]
    by (auto simp: double_less_iff double_eq_iff val_dadd w)
  have c: "val (D 0.2) \<le> val (yPos b) + val (height b) \<longrightarrow> D 0.2 \<le> dadd (yPos b) (height b)"
    using val_le_rnd[of "D 0.2" "val (yPos b) + val (height b)"]
    by (auto simp: double_le_iff val_dadd)
  have d: "D 0.2 \<le> dadd (yPos b) (height b) \<longrightarrow>
         val (D 0.2) \<le> val (yPos b) + val (height b) \<or> dadd (yPos b) (height b) = D 0.2"
  proof (intro impI)
    assume h: "D 0.2 \<le> dadd (yPos b) (height b)"
    show "val (D 0.2) \<le> val (yPos b) + val (height b) \<or> dadd (yPos b) (height b) = D 0.2"
    proof (cases "val (D 0.2) \<le> val (yPos b) + val (height b)")
      case True
      then show ?thesis by simp
    next
      case False
      then have "rnd64 (val (yPos b) + val (height b)) \<le> val (D 0.2)"
        by (intro rnd_le_val) simp
      with h have "dadd (yPos b) (height b) = D 0.2"
        by (simp add: double_le_iff double_eq_iff val_dadd)
      then show ?thesis by simp
    qed
  qed
  have e: "(leftToHole b < x \<and> x < dadd (leftToHole b) holeWidth \<longrightarrow> \<not> Barrier_hit b x)
    \<and> (\<not> (leftToHole b < x \<and> x < dadd (leftToHole b) holeWidth) \<longrightarrow>
         (Barrier_hit b x \<longleftrightarrow> yPos b \<le> D 0.2 \<and> D 0.2 \<le> dadd (yPos b) (height b)))"
    using assms by (auto simp: Barrier_hit_def in_hole_def playerPosY_def)
  have f: "holeWidth = D 0.25 \<and> val (D 0.25) = 0.25"
    using w by (simp add: holeWidth_def)
  from a b c d e f show ?thesis by blast
qed

theorem slit_hit_witness:
  "\<not> Barrier_hit \<lparr>type = Slit, leftToHole = D 0.375, height = D 0.1, yPos = D 0.15\<rparr> (D 0.5)
   \<and> Barrier_hit \<lparr>type = Slit, leftToHole = D 0.375, height = D 0.1, yPos = D 0.15\<rparr> (D 0.375)
   \<and> Barrier_hit \<lparr>type = Slit, leftToHole = D 0.375, height = D 0.1, yPos = D 0.15\<rparr> (D 0.625)
   \<and> \<not> Barrier_hit \<lparr>type = Slit, leftToHole = D 0.375, height = D 0.1, yPos = D 1\<rparr> (D 0.3)"
proof -
  let ?b = "\<lparr>type = Slit, leftToHole = D 0.375, height = D 0.1, yPos = D 0.15\<rparr>"
  let ?c = "\<lparr>type = Slit, leftToHole = D 0.375, height = D 0.1, yPos = D 1\<rparr>"
  have 1: "\<not> Barrier_hit ?b (D 0.5)"
    using slit_hit[of ?b "D 0.5"]
    by (simp add: d_iffs val_simps holeWidth_def rnd64_consts, (simp add: rnd_defs)?)
  have 2: "Barrier_hit ?b (D 0.375)"
    using slit_hit[of ?b "D 0.375"]
    by (simp add: d_iffs val_simps holeWidth_def rnd64_consts, (simp add: rnd_defs)?)
  have 3: "Barrier_hit ?b (D 0.625)"
    using slit_hit[of ?b "D 0.625"]
    by (simp add: d_iffs val_simps holeWidth_def rnd64_consts, (simp add: rnd_defs)?)
  have 4: "\<not> Barrier_hit ?c (D 0.3)"
    using slit_hit[of ?c "D 0.3"]
    by (simp add: d_iffs val_simps holeWidth_def rnd64_consts, (simp add: rnd_defs)?)
  from 1 2 3 4 show ?thesis by blast
qed

theorem slit_hole_one_double_narrower:
  "type ex_slit = Slit
   \<and> val (leftToHole ex_slit) < val (dadd (leftToHole ex_slit) holeWidth)
   \<and> val (dadd (leftToHole ex_slit) holeWidth) < val (leftToHole ex_slit) + 0.25
   \<and> Barrier_hit ex_slit (dadd (leftToHole ex_slit) holeWidth)"
  by (simp add: ex_slit_def Barrier_hit_def in_hole_def consts_defs d_iffs val_simps rnd64_consts,
      simp add: rnd_defs)

text \<open>
  Claim C4, amended. The constructor returns a level whose consecutive barriers are
  exactly \<open>barrierInterval = 0.5\<close> apart. \<^verbatim>\<open>update(speedY)\<close> subtracts \<open>speedY\<close> from
  every \<open>yPos\<close> and rounds each difference on its own, so it keeps the spacing up to
  rounding only: when the consecutive barriers of a reachable level are \<open>0.5\<close> apart up
  to \<open>e\<close>, and \<open>\<bar>yPos - speedY\<bar> \<le> M\<close> for each of its barriers, the call returns a
  level whose consecutive barriers, the appended one included, are \<open>0.5\<close> apart up to
  \<open>e + (2 M + 1) / 2\<^sup>5\<^sup>3\<close>. (After the constructor and \<^verbatim>\<open>update(0.005)\<close> the first two
  barriers are \<open>0.5 + 2\<^sup>-\<^sup>5\<^sup>3\<close> apart, and the program's own subtraction of their \<open>yPos\<close>
  does not return \<open>0.5\<close>: \<open>ex_scrolled\<close>.)
\<close>

theorem spacing_invariant:
  "(\<exists>lv0. Level_new rng = Some lv0 \<and> successively spaced (barriers lv0))
   \<and> (reachable lv \<and> successively (spaced_within e) (barriers lv)
        \<and> (\<forall>b\<in>set (barriers lv). \<bar>val (yPos b) - val speedY\<bar> \<le> M) \<longrightarrow>
        (\<exists>lv'. update speedY d lv = Some lv'
           \<and> successively (spaced_within (e + (2 * M + 1) / 2 ^ 53)) (barriers lv')))
   \<and> (spaced p n \<longleftrightarrow> spaced_within 0 p n)
   \<and> (spaced_within e p n \<longleftrightarrow> \<bar>val (yPos n) - val (yPos p) - 0.5\<bar> \<le> e)"
proof (intro conjI impI)
  show "\<exists>lv0. Level_new rng = Some lv0 \<and> successively spaced (barriers lv0)"
    by (rule Level_new_spaced)
next
  assume a: "reachable lv \<and> successively (spaced_within e) (barriers lv)
        \<and> (\<forall>b\<in>set (barriers lv). \<bar>val (yPos b) - val speedY\<bar> \<le> M)"
  then have r: "reachable lv" and P: "successively (spaced_within e) (barriers lv)"
    and M: "\<forall>b\<in>set (barriers lv). \<bar>val (yPos b) - val speedY\<bar> \<le> M" by blast+
  from reachable_length[OF r] obtain b1 b2 b3 where bs: "barriers lv = [b1, b2, b3]"
    by (auto simp: length_Suc_conv numeral_3_eq_3)
  from P have "spaced_within e b1 b2" by (simp add: bs)
  then have e: "0 \<le> e" unfolding spaced_within_def by linarith
  from update_total[of lv speedY d] obtain lv' where u: "update speedY d lv = Some lv'"
    by (auto simp: bs)
  from update_spaced_within[OF u P M e] u
  show "\<exists>lv'. update speedY d lv = Some lv'
           \<and> successively (spaced_within (e + (2 * M + 1) / 2 ^ 53)) (barriers lv')" by blast
next
  show "spaced p n \<longleftrightarrow> spaced_within 0 p n" by (auto simp: spaced_def spaced_within_def)
next
  have w: "val barrierInterval = 1 / 2" by (simp add: barrierInterval_def val_simps rnd64_consts)
  show "spaced_within e p n \<longleftrightarrow> \<bar>val (yPos n) - val (yPos p) - 0.5\<bar> \<le> e"
    by (simp add: spaced_within_def w)
qed

theorem spacing_invariant_witness:
  "Level_new (\<lambda>k. d0) = Some ex_level \<and> successively spaced (barriers ex_level)
   \<and> update (D 0.005) d0 ex_level = Some ex_scrolled
   \<and> successively (spaced_within (5 / 2 ^ 53)) (barriers ex_scrolled)"
proof -
  note T = spacing_invariant[of "\<lambda>k. d0" ex_level 0 "D 0.005" 2 d0
      "barriers ex_level ! 0" "barriers ex_level ! 1"]
  from T obtain lv0 where "Level_new (\<lambda>k. d0) = Some lv0" "successively spaced (barriers lv0)"
    by blast
  with ex_level_new have 1: "successively spaced (barriers ex_level)" by simp
  have w: "val barrierInterval = 1 / 2" by (simp add: barrierInterval_def val_simps rnd64_consts)
  have 2: "successively (spaced_within 0) (barriers ex_level)"
    by (simp add: ex_level_def spaced_within_def w val_D rnd64_consts)
  have 3: "\<forall>b\<in>set (barriers ex_level). \<bar>val (yPos b) - val (D 0.005)\<bar> \<le> 2"
    by (simp add: ex_level_def val_D rnd64_consts, simp add: rnd_defs)
  from T reachable_ex_level 2 3 obtain lv' where "update (D 0.005) d0 ex_level = Some lv'"
    "successively (spaced_within (0 + (2 * 2 + 1) / 2 ^ 53)) (barriers lv')" by blast
  with ex_scrolled_update
  have "successively (spaced_within (0 + (2 * 2 + 1) / 2 ^ 53)) (barriers ex_scrolled)" by simp
  then have 4: "successively (spaced_within (5 / 2 ^ 53)) (barriers ex_scrolled)" by simp
  from ex_level_new 1 ex_scrolled_update 4 show ?thesis by blast
qed

theorem scroll_breaks_spacing:
  "Level_new (\<lambda>k. d0) = Some ex_level \<and> valid_draw d0 \<and> reachable ex_scrolled
   \<and> update (D 0.005) d0 ex_level = Some ex_scrolled
   \<and> val (yPos (barriers ex_scrolled ! 1)) - val (yPos (barriers ex_scrolled ! 0))
       = 0.5 + 1 / 2 ^ 53
   \<and> dsub (yPos (barriers ex_scrolled ! 1)) (yPos (barriers ex_scrolled ! 0)) \<noteq> barrierInterval
   \<and> \<not> successively spaced (barriers ex_scrolled)"
proof -
  have r: "reachable ex_scrolled"
    using step[OF reachable_ex_level valid_d0 ex_scrolled_update] .
  have 1: "val (yPos (barriers ex_scrolled ! 1)) - val (yPos (barriers ex_scrolled ! 0))
       = 0.5 + 1 / 2 ^ 53"
    by (simp add: ex_scrolled_def ex_scrolled_vals)
  have w: "val barrierInterval = 1 / 2" by (simp add: barrierInterval_def val_simps rnd64_consts)
  have "val (dsub (yPos (barriers ex_scrolled ! 1)) (yPos (barriers ex_scrolled ! 0)))
      = rnd64 (4503599627370497 / 2 ^ 53)"
    by (simp add: ex_scrolled_def val_dsub[of "dsub _ _"] ex_scrolled_vals)
  also have "\<dots> = 4503599627370497 / 2 ^ 53" by (simp add: rnd_defs)
  finally have 2: "dsub (yPos (barriers ex_scrolled ! 1)) (yPos (barriers ex_scrolled ! 0))
      \<noteq> barrierInterval"
    by (simp add: double_eq_iff w)
  have 3: "\<not> successively spaced (barriers ex_scrolled)"
    by (simp add: ex_scrolled_def spaced_def ex_scrolled_vals w)
  from ex_level_new valid_d0 r ex_scrolled_update 1 2 3 show ?thesis by blast
qed

text \<open>
  Claim C5, amended. Called on a level that holds a barrier, \<^verbatim>\<open>addBarrier\<close> returns
  and the barrier it appends has the height
  \<^verbatim>\<open>initialBarrierHeight + min(mileage / 100, 1) * (0.3 - initialBarrierHeight)\<close> as
  binary64 arithmetic evaluates it (\<open>barrier_height\<close>). For a mileage \<open>m \<ge> 0\<close> that
  height differs from the real number \<open>0.1 + min(m / 100, 1) * 0.2\<close> by at most
  \<open>2\<^sup>-\<^sup>5\<^sup>3\<close>. It is the binary64 number \<open>0.1\<close> at mileage \<open>0\<close>, it is the binary64 number
  \<open>0.3\<close> for every mileage from \<open>100\<close> on, and it never decreases when the mileage
  grows. (At mileage \<open>10\<close> the height is neither the real number \<open>0.12\<close> nor the
  binary64 number nearest to it, and the next binary64 mileage above \<open>10\<close> gives the
  same height.)
\<close>

theorem generated_height:
  assumes "barriers lv \<noteq> []"
  shows "\<exists>lv'. addBarrier d lv = Some lv'
     \<and> height (last (barriers lv')) = barrier_height (mileage lv)
     \<and> barrier_height (mileage lv) =
         dadd (D 0.1) (dmul (min (ddiv (mileage lv) (D 100)) (D 1)) (dsub (D 0.3) (D 0.1)))
     \<and> (0 \<le> val (mileage lv) \<longrightarrow>
          \<bar>val (height (last (barriers lv'))) - (0.1 + min (val (mileage lv) / 100) 1 * 0.2)\<bar>
            \<le> 1 / 2 ^ 53)
     \<and> (mileage lv = D 0 \<longrightarrow> height (last (barriers lv')) = D 0.1)
     \<and> (D 100 \<le> mileage lv \<longrightarrow> height (last (barriers lv')) = D 0.3)
     \<and> (m \<le> m' \<longrightarrow> barrier_height m \<le> barrier_height m')"
proof -
  from addBarrier_total[OF assms] obtain lv' where a: "addBarrier d lv = Some lv'" by blast
  from addBarrier_SomeD(1)[OF a] have h: "height (last (barriers lv')) = barrier_height (mileage lv)"
    by auto
  have f: "barrier_height (mileage lv) =
         dadd (D 0.1) (dmul (min (ddiv (mileage lv) (D 100)) (D 1)) (dsub (D 0.3) (D 0.1)))"
    by (simp add: barrier_height_def initialBarrierHeight_def Let_def)
  have e: "0 \<le> val (mileage lv) \<longrightarrow>
          \<bar>val (height (last (barriers lv'))) - (0.1 + min (val (mileage lv) / 100) 1 * 0.2)\<bar>
            \<le> 1 / 2 ^ 53"
    unfolding h using barrier_height_error[of "mileage lv"] by blast
  have z: "mileage lv = D 0 \<longrightarrow> height (last (barriers lv')) = D 0.1"
    unfolding h using barrier_height_zero by auto
  have c: "D 100 \<le> mileage lv \<longrightarrow> height (last (barriers lv')) = D 0.3"
    unfolding h using barrier_height_cap[of "mileage lv"] by blast
  have m: "m \<le> m' \<longrightarrow> barrier_height m \<le> barrier_height m'"
    using barrier_height_mono[of m m'] by blast
  from a h f e z c m show ?thesis by blast
qed

theorem generated_height_witness:
  "\<exists>lv'. addBarrier d0 (ex_level\<lparr>mileage := D 100\<rparr>) = Some lv'
     \<and> height (last (barriers lv')) = D 0.3
     \<and> \<bar>val (height (last (barriers lv'))) - 0.3\<bar> \<le> 1 / 2 ^ 53
     \<and> barrier_height (D 10) \<le> barrier_height (D 100)"
proof -
  let ?lv = "ex_level\<lparr>mileage := D 100\<rparr>"
  have ne: "barriers ?lv \<noteq> []" by (simp add: ex_level_def)
  have c: "D 100 \<le> mileage ?lv" by simp
  have z: "0 \<le> val (mileage ?lv)" by (simp add: val_consts)
  have le: "D 10 \<le> D 100" by (simp add: d_iffs val_simps rnd64_consts)
  from generated_height[OF ne, of d0 "D 10" "D 100"] c z le
  obtain lv' where a: "addBarrier d0 ?lv = Some lv'"
    and h: "height (last (barriers lv')) = D 0.3"
    and e: "\<bar>val (height (last (barriers lv'))) - (0.1 + min (val (mileage ?lv) / 100) 1 * 0.2)\<bar>
              \<le> 1 / 2 ^ 53"
    and m: "barrier_height (D 10) \<le> barrier_height (D 100)"
    by blast
  have "0.1 + min (val (mileage ?lv) / 100) 1 * 0.2 = (0.3 :: real)" by (simp add: val_consts)
  with e have e': "\<bar>val (height (last (barriers lv'))) - 0.3\<bar> \<le> 1 / 2 ^ 53" by simp
  from a h e' m show ?thesis by blast
qed

theorem generated_height_rounds:
  "reachable ex_far \<and> mileage ex_far = D 10 \<and> val (D 10) = 10
   \<and> update (D 0) d0 ex_far = Some ex_far'
   \<and> val (height (last (barriers ex_far'))) = 8646911284551353 / 2 ^ 56
   \<and> val (height (last (barriers ex_far'))) \<noteq> 0.1 + min (10 / 100) 1 * 0.2
   \<and> height (last (barriers ex_far')) \<noteq> D (0.1 + min (10 / 100) 1 * 0.2)
   \<and> D 10 < D (10 + 1 / 2 ^ 49)
   \<and> barrier_height (D (10 + 1 / 2 ^ 49)) = barrier_height (D 10)"
proof -
  have 1: "mileage ex_far = D 10 \<and> val (D 10) = 10" by (simp add: ex_far_def val_simps rnd64_consts)
  have 2: "val (height (last (barriers ex_far'))) = 8646911284551353 / 2 ^ 56"
    by (simp add: ex_far'_def val_barrier_height_10)
  have 3: "val (height (last (barriers ex_far'))) \<noteq> 0.1 + min (10 / 100) 1 * 0.2"
    unfolding 2 by simp
  have "val (D (0.1 + min (10 / 100) 1 * 0.2)) = 1080863910568919 / 2 ^ 53"
    by (simp add: val_simps rnd_defs)
  then have 4: "height (last (barriers ex_far')) \<noteq> D (0.1 + min (10 / 100) 1 * 0.2)"
    unfolding double_eq_iff 2 by simp
  have 5: "D 10 < D (10 + 1 / 2 ^ 49)" by (simp add: d_iffs val_simps rnd_defs)
  have 6: "barrier_height (D (10 + 1 / 2 ^ 49)) = barrier_height (D 10)"
    by (simp only: double_eq_iff val_barrier_height_10 val_barrier_height_10')
  from reachable_ex_far ex_far'_update 1 2 3 4 5 6 show ?thesis by blast
qed

text \<open>
  Claim C6, amended. When the front barrier of a level is visible, any number of calls
  \<^verbatim>\<open>update(0)\<close> returns the level unchanged: no \<open>yPos\<close> changes, no barrier is
  removed or appended, and the mileage stays. (A reachable level can have an invisible
  front barrier, since one \<^verbatim>\<open>update\<close> removes at most one barrier; there
  \<^verbatim>\<open>update(0)\<close> recycles: the level \<open>ex_far\<close> is one.)
\<close>

theorem update_zero_idle:
  assumes "barriers lv \<noteq> []" and "isVisible (hd (barriers lv))" and "\<forall>c\<in>set calls. fst c = D 0"
  shows "updates calls lv = Some lv"
  using assms(3)
proof (induction calls)
  case Nil
  show ?case by simp
next
  case (Cons c cs)
  then have "update (fst c) (snd c) lv = Some lv"
    using update_zero_visible[OF assms(1,2)] by simp
  with Cons show ?case by simp
qed

theorem update_zero_idle_witness:
  "barriers ex_level \<noteq> [] \<and> isVisible (hd (barriers ex_level))
   \<and> updates [(D 0, d0), (D 0, d0), (D 0, d0)] ex_level = Some ex_level"
proof -
  have 1: "barriers ex_level \<noteq> []" by (simp add: ex_level_def)
  have 2: "isVisible (hd (barriers ex_level))"
    by (simp add: ex_level_def isVisible_def d_iffs val_simps rnd64_consts)
  have 3: "\<forall>c\<in>set [(D 0, d0), (D 0, d0), (D 0, d0)]. fst c = D 0" by simp
  from update_zero_idle[OF 1 2 3] 1 2 show ?thesis by simp
qed

theorem update_zero_recycles:
  "reachable ex_far \<and> update (D 0) d0 ex_far = Some ex_far'
   \<and> barriers ex_far' \<noteq> barriers ex_far
   \<and> hd (barriers ex_far) \<notin> set (barriers ex_far')
   \<and> last (barriers ex_far') \<notin> set (barriers ex_far)"
proof -
  have "D (- 17 / 2) \<noteq> D (- 8)" "D (- 17 / 2) \<noteq> D (- 15 / 2)" "D (- 17 / 2) \<noteq> D (- 7)"
    "D (- 7) \<noteq> D (- 8)" "D (- 7) \<noteq> D (- 15 / 2)"
    by (simp_all add: double_eq_iff val_simps rnd_defs)
  then have "barriers ex_far' \<noteq> barriers ex_far
   \<and> hd (barriers ex_far) \<notin> set (barriers ex_far')
   \<and> last (barriers ex_far') \<notin> set (barriers ex_far)"
    by (simp add: ex_far_def ex_far'_def)
  with reachable_ex_far ex_far'_update show ?thesis by blast
qed

text \<open>
  Claim C7. The constructor returns a level with mileage \<open>0\<close> and at least two
  barriers, whose front barrier is the centred slit of the member initialiser:
  \<open>yPos = 1.0\<close>, \<open>height = 0.1\<close>, \<open>leftToHole = 0.5 - holeWidth / 2 = 0.375\<close>; the
  subtraction and the division are exact in binary64.
\<close>

theorem fresh_level:
  "\<exists>lv. Level_new rng = Some lv \<and> mileage lv = D 0 \<and> 2 \<le> length (barriers lv)
     \<and> hd (barriers lv) = \<lparr>type = Slit, leftToHole = D 0.375, height = D 0.1, yPos = D 1.0\<rparr>
     \<and> dsub (D 0.5) (ddiv holeWidth (D 2)) = D 0.375
     \<and> val (D 0.375) = 0.375 \<and> val (D 1.0) = 1 \<and> val (D 0) = 0"
proof -
  have "dsub (D 0.5) (ddiv holeWidth (D 2)) = D 0.375"
    by (simp add: holeWidth_def d_iffs val_simps rnd64_consts)
  moreover have "val (D 0.375) = 0.375 \<and> val (D 1.0) = 1 \<and> val (D 0) = 0"
    by (simp add: val_simps rnd64_consts)
  ultimately show ?thesis using Level_new_shape[of rng] by auto
qed

theorem fresh_level_witness:
  "Level_new (\<lambda>k. d0) = Some ex_level \<and> mileage ex_level = D 0 \<and> 2 \<le> length (barriers ex_level)
   \<and> hd (barriers ex_level) = \<lparr>type = Slit, leftToHole = D 0.375, height = D 0.1, yPos = D 1.0\<rparr>"
  using fresh_level[of "\<lambda>k. d0"] ex_level_new by (simp add: ex_level_def)

text \<open>
  Claim C8, amended. Called on a level that holds a barrier, with \<open>pos\<close> drawn from
  \<open>[0.4, 0.6]\<close>, \<^verbatim>\<open>addBarrier\<close> returns, and for the barrier it appends there are binary64
  numbers \<open>lo < x < hi\<close> with \<open>sideWallWidth \<le> lo\<close> and \<open>hi \<le> 1 - sideWallWidth\<close> such
  that \<^verbatim>\<open>Barrier::hit\<close> returns false, before the vertical test, at every \<open>y\<close> between
  \<open>lo\<close> and \<open>hi\<close>. The interval reaches the centre band from \<open>0.4 - holeWidth / 2\<close> to
  \<open>0.6 + holeWidth / 2\<close>, and its point \<open>x\<close> lies in the centre band unless the new
  barrier is a \<^verbatim>\<open>Right\<close> barrier appended behind a \<^verbatim>\<open>Slit\<close> with \<open>pos = 0.4\<close>. For
  binary64 numbers, the band limits computed in binary64 select the same numbers as the
  real limits \<open>0.275\<close> and \<open>0.725\<close>. (In the excepted case \<open>leftToHole\<close> is the lower
  band limit, and the barrier is passable only below it: \<open>ex_edge\<close>.)
\<close>

theorem generated_barrier_passable:
  assumes "barriers lv \<noteq> []" and "D 0.4 \<le> pos d" and "pos d \<le> D 0.6"
  shows "(\<exists>lv'. addBarrier d lv = Some lv'
      \<and> (\<exists>lo hi x. lo < x \<and> x < hi \<and> sideWallWidth \<le> lo \<and> hi \<le> dsub (D 1) sideWallWidth
           \<and> (\<forall>y. lo < y \<and> y < hi \<longrightarrow>
                 in_hole (last (barriers lv')) y \<and> \<not> Barrier_hit (last (barriers lv')) y)
           \<and> lo < dadd (D 0.6) (ddiv holeWidth (D 2))
           \<and> dsub (D 0.4) (ddiv holeWidth (D 2)) \<le> hi
           \<and> (\<not> (type (last (barriers lv)) = Slit \<and> type (last (barriers lv')) = Right
                    \<and> pos d = D 0.4) \<longrightarrow>
                dsub (D 0.4) (ddiv holeWidth (D 2)) \<le> x
                \<and> x \<le> dadd (D 0.6) (ddiv holeWidth (D 2)))))
    \<and> (dsub (D 0.4) (ddiv holeWidth (D 2)) \<le> z \<longleftrightarrow> 0.275 \<le> val z)
    \<and> (z \<le> dadd (D 0.6) (ddiv holeWidth (D 2)) \<longleftrightarrow> val z \<le> 0.725)"
proof -
  from addBarrier_total[OF assms(1)] obtain lv' where a: "addBarrier d lv = Some lv'" by blast
  from passable_new[OF a assms(2,3)] a band_eq[of z] show ?thesis by blast
qed

theorem generated_barrier_passable_witness:
  "barriers ex_far \<noteq> [] \<and> D 0.4 \<le> pos d0 \<and> pos d0 \<le> D 0.6
   \<and> addBarrier d0 ex_far = Some (ex_far\<lparr>barriers := barriers ex_far @
        [\<lparr>type = Right, leftToHole = D 0.5, height = barrier_height (D 10), yPos = D (- 7)\<rparr>]\<rparr>)
   \<and> (\<exists>lo hi x. lo < x \<and> x < hi \<and> sideWallWidth \<le> lo \<and> hi \<le> dsub (D 1) sideWallWidth
        \<and> (\<forall>y. lo < y \<and> y < hi \<longrightarrow>
              in_hole \<lparr>type = Right, leftToHole = D 0.5, height = barrier_height (D 10),
                       yPos = D (- 7)\<rparr> y)
        \<and> 0.275 \<le> val x \<and> val x \<le> 0.725)"
proof -
  let ?b = "\<lparr>type = Right, leftToHole = D 0.5, height = barrier_height (D 10), yPos = D (- 7)\<rparr>"
  have ne: "barriers ex_far \<noteq> []" by (simp add: ex_far_def)
  have p: "D 0.4 \<le> pos d0" "pos d0 \<le> D 0.6"
    by (simp_all add: d0_def d_iffs val_simps rnd64_consts)
  have t: "type (last (barriers ex_far)) \<noteq> Slit" by (simp add: ex_far_def)
  note T = generated_barrier_passable[OF ne p]
  from T[of "D 0"] obtain lv' lo hi x where
    a: "addBarrier d0 ex_far = Some lv'" and
    i: "lo < x" "x < hi" "sideWallWidth \<le> lo" "hi \<le> dsub (D 1) sideWallWidth"
      "\<forall>y. lo < y \<and> y < hi \<longrightarrow> in_hole (last (barriers lv')) y" and
    q: "\<not> (type (last (barriers ex_far)) = Slit \<and> type (last (barriers lv')) = Right
            \<and> pos d0 = D 0.4) \<longrightarrow>
          dsub (D 0.4) (ddiv holeWidth (D 2)) \<le> x \<and> x \<le> dadd (D 0.6) (ddiv holeWidth (D 2))"
    by blast
  from a ex_far_add have l: "last (barriers lv') = ?b" by auto
  from q t have "dsub (D 0.4) (ddiv holeWidth (D 2)) \<le> x" "x \<le> dadd (D 0.6) (ddiv holeWidth (D 2))"
    by blast+
  with T[of x] have x: "0.275 \<le> val x" "val x \<le> 0.725" by blast+
  from i(5) have "\<forall>y. lo < y \<and> y < hi \<longrightarrow> in_hole ?b y" unfolding l .
  with i(1-4) x have "\<exists>lo hi x. lo < x \<and> x < hi \<and> sideWallWidth \<le> lo \<and> hi \<le> dsub (D 1) sideWallWidth
        \<and> (\<forall>y. lo < y \<and> y < hi \<longrightarrow> in_hole ?b y)
        \<and> 0.275 \<le> val x \<and> val x \<le> 0.725" by blast
  with ne p ex_far_add show ?thesis by blast
qed

theorem right_after_slit_misses_band:
  "valid_draw d_edge \<and> addBarrier d_edge Level_init = Some ex_edge \<and> pos d_edge = D 0.4
   \<and> type (last (barriers Level_init)) = Slit
   \<and> last (barriers ex_edge) = \<lparr>type = Right, leftToHole = D 0.275, height = D 0.1, yPos = D 1.5\<rparr>
   \<and> D 0.275 = dsub (D 0.4) (ddiv holeWidth (D 2))
   \<and> \<not> (\<exists>lo hi x. lo < x \<and> x < hi \<and> sideWallWidth \<le> lo \<and> hi \<le> dsub (D 1) sideWallWidth
          \<and> (\<forall>y. lo < y \<and> y < hi \<longrightarrow> in_hole (last (barriers ex_edge)) y)
          \<and> dsub (D 0.4) (ddiv holeWidth (D 2)) \<le> x
          \<and> x \<le> dadd (D 0.6) (ddiv holeWidth (D 2)))"
proof -
  have v: "valid_draw d_edge"
    by (simp add: valid_draw_def d_edge_def d_iffs val_simps rnd64_consts)
  have e: "D 0.275 = dsub (D 0.4) (ddiv holeWidth (D 2))"
    by (simp add: double_eq_iff band_vals, simp add: val_simps rnd_defs)
  have "\<not> in_hole (last (barriers ex_edge)) x" if "dsub (D 0.4) (ddiv holeWidth (D 2)) \<le> x" for x
    using that unfolding e[symmetric] by (simp add: ex_edge_def in_hole_def)
  then have n: "\<not> (\<exists>lo hi x. lo < x \<and> x < hi \<and> sideWallWidth \<le> lo \<and> hi \<le> dsub (D 1) sideWallWidth
          \<and> (\<forall>y. lo < y \<and> y < hi \<longrightarrow> in_hole (last (barriers ex_edge)) y)
          \<and> dsub (D 0.4) (ddiv holeWidth (D 2)) \<le> x
          \<and> x \<le> dadd (D 0.6) (ddiv holeWidth (D 2)))"
    by blast
  have 1: "pos d_edge = D 0.4" by (simp add: d_edge_def)
  have 2: "type (last (barriers Level_init)) = Slit" by (simp add: Level_init_def)
  have 3: "last (barriers ex_edge) = \<lparr>type = Right, leftToHole = D 0.275, height = D 0.1, yPos = D 1.5\<rparr>"
    by (simp add: ex_edge_def)
  from v ex_edge_add 1 2 3 e n show ?thesis by blast
qed

text \<open>
  Claim C9, amended. For every level with \<open>mileage \<ge> 0\<close> whose product
  \<^verbatim>\<open>mileage * 5.0\<close>, rounded to binary64 as the program computes it, is below \<open>2\<^sup>3\<^sup>1\<close>,
  \<^verbatim>\<open>getScore()\<close> returns the floor of the rounded product. That is
  \<open>\<lfloor>mileage * 5\<rfloor>\<close>, except when the product rounds up to the integer
  \<open>\<lfloor>mileage * 5\<rfloor> + 1\<close>, which is then returned. Mileage \<open>1.0\<close> yields \<open>5\<close> and mileage
  \<open>0.19\<close> yields \<open>0\<close>. (After the constructor and \<^verbatim>\<open>update(0.6)\<close> the mileage is the
  binary64 number nearest to \<open>0.6\<close>, which is below \<open>0.6\<close>; the product rounds to \<open>3\<close>
  and \<^verbatim>\<open>getScore()\<close> returns \<open>3\<close>, while \<open>\<lfloor>mileage * 5\<rfloor> = 2\<close>.)
\<close>

theorem getScore_floor:
  assumes "0 \<le> val (mileage (level dat))"
    and "val (dmul (mileage (level dat)) (D 5)) < 2 ^ 31"
  shows "getScore dat = Some \<lfloor>val (dmul (mileage (level dat)) (D 5))\<rfloor>
    \<and> \<lfloor>val (dmul (mileage (level dat)) (D 5))\<rfloor> =
        (if val (dmul (mileage (level dat)) (D 5)) = of_int (\<lfloor>val (mileage (level dat)) * 5\<rfloor> + 1)
         then \<lfloor>val (mileage (level dat)) * 5\<rfloor> + 1
         else \<lfloor>val (mileage (level dat)) * 5\<rfloor>)"
proof -
  let ?m = "val (mileage (level dat))"
  let ?p = "val (dmul (mileage (level dat)) (D 5))"
  have p: "?p = rnd64 (?m * 5)" by (simp add: val_simps rnd64_consts)
  have y: "0 \<le> ?m * 5" using assms(1) by simp
  then have p0: "0 \<le> ?p" unfolding p by (rule rnd64_nonneg)
  then have "0 \<le> \<lfloor>?p\<rfloor>" by simp
  moreover have "\<lfloor>?p\<rfloor> < 2 ^ 31" using assms(2) by (simp add: floor_less_iff)
  ultimately have "getScore dat = Some \<lfloor>?p\<rfloor>" using p0
    by (simp add: getScore_def getMileage_def static_cast_int_def Let_def)
  moreover have "\<lfloor>?p\<rfloor> = (if ?p = of_int (\<lfloor>?m * 5\<rfloor> + 1) then \<lfloor>?m * 5\<rfloor> + 1 else \<lfloor>?m * 5\<rfloor>)"
    unfolding p using assms(2) by (intro floor_rnd64[OF y]) (simp add: p)
  ultimately show ?thesis by simp
qed

theorem getScore_floor_witness:
  "getScore (ex_data (ex_level\<lparr>mileage := D 1.0\<rparr>)) = Some 5
   \<and> getScore (ex_data (ex_level\<lparr>mileage := D 0.19\<rparr>)) = Some 0"
proof -
  have 1: "val (dmul (D 1) (D 5)) = 5" by (simp add: val_simps rnd64_consts)
  have 2: "val (D (19 / 100)) = 3422735716801577 / 2 ^ 54" by (simp add: val_simps rnd_defs)
  have 3: "val (dmul (D (19 / 100)) (D 5)) = 4278419646001971 / 2 ^ 52"
    by (simp add: val_dmul 2, simp add: val_simps rnd_defs)
  have a: "getScore (ex_data (ex_level\<lparr>mileage := D 1.0\<rparr>)) = Some 5"
    using getScore_floor[of "ex_data (ex_level\<lparr>mileage := D 1.0\<rparr>)"]
    by (simp add: ex_data_def 1 val_simps rnd64_consts)
  have b: "getScore (ex_data (ex_level\<lparr>mileage := D 0.19\<rparr>)) = Some 0"
    using getScore_floor[of "ex_data (ex_level\<lparr>mileage := D 0.19\<rparr>)"]
    by (simp add: ex_data_def 3 2)
  from a b show ?thesis by simp
qed

theorem getScore_product_rounds_up:
  "reachable ex_06 \<and> val (mileage ex_06) = 5404319552844595 / 2 ^ 53
   \<and> getScore (ex_data ex_06) = Some 3 \<and> \<lfloor>val (mileage ex_06) * 5\<rfloor> = 2"
proof -
  have 1: "val (D (3 / 5)) = 5404319552844595 / 2 ^ 53" by (simp add: val_simps rnd64_consts)
  have 2: "val (dmul (D (3 / 5)) (D 5)) = 3"
    by (simp add: val_dmul 1, simp add: val_simps rnd_defs)
  have a: "getScore (ex_data ex_06) = Some 3"
    by (simp add: getScore_def getMileage_def static_cast_int_def Let_def ex_data_def ex_06_def 2)
  have b: "\<lfloor>val (mileage ex_06) * 5\<rfloor> = 2"
    by (simp add: ex_06_def 1)
  have c: "val (mileage ex_06) = 5404319552844595 / 2 ^ 53"
    by (simp add: ex_06_def 1)
  from reachable_ex_06 a b c show ?thesis by blast
qed

text \<open>
  Claim C10 (size). The constructor returns a level of exactly three barriers. Every
  \<^verbatim>\<open>update\<close> that returns keeps the number of barriers: it shifts them, and
  removes the front barrier and appends exactly one exactly when the shifted front
  barrier is not visible. So every reachable
  level holds exactly three barriers, is never empty, and \<^verbatim>\<open>update\<close> is defined on
  it.
\<close>

theorem level_size:
  "(\<exists>lv0. Level_new rng = Some lv0 \<and> length (barriers lv0) = 3)
   \<and> (update speedY d lv = Some lv' \<longrightarrow>
        length (barriers lv') = length (barriers lv)
        \<and> (isVisible (hd (map (\<lambda>b. b\<lparr>yPos := dsub (yPos b) speedY\<rparr>) (barriers lv))) \<longrightarrow>
             barriers lv' = map (\<lambda>b. b\<lparr>yPos := dsub (yPos b) speedY\<rparr>) (barriers lv))
        \<and> (\<not> isVisible (hd (map (\<lambda>b. b\<lparr>yPos := dsub (yPos b) speedY\<rparr>) (barriers lv))) \<longrightarrow>
             (\<exists>b. barriers lv' =
                tl (map (\<lambda>b. b\<lparr>yPos := dsub (yPos b) speedY\<rparr>) (barriers lv)) @ [b])))
   \<and> (reachable lv \<longrightarrow>
        length (barriers lv) = 3 \<and> barriers lv \<noteq> [] \<and> (\<exists>lv''. update speedY d lv = Some lv''))"
proof (intro conjI impI)
  show "\<exists>lv0. Level_new rng = Some lv0 \<and> length (barriers lv0) = 3"
    using Level_new_shape[of rng] by auto
next
  assume "update speedY d lv = Some lv'"
  then show "length (barriers lv') = length (barriers lv)" by (rule update_length)
next
  assume u: "update speedY d lv = Some lv'"
    and v: "isVisible (hd (map (\<lambda>b. b\<lparr>yPos := dsub (yPos b) speedY\<rparr>) (barriers lv)))"
  from update_SomeD(2)[OF u] v
  show "barriers lv' = map (\<lambda>b. b\<lparr>yPos := dsub (yPos b) speedY\<rparr>) (barriers lv)"
    by auto
next
  assume u: "update speedY d lv = Some lv'"
    and v: "\<not> isVisible (hd (map (\<lambda>b. b\<lparr>yPos := dsub (yPos b) speedY\<rparr>) (barriers lv)))"
  from update_SomeD(2)[OF u] v
  show "\<exists>b. barriers lv' = tl (map (\<lambda>b. b\<lparr>yPos := dsub (yPos b) speedY\<rparr>) (barriers lv)) @ [b]"
    by (auto dest!: addBarrier_SomeD(1))
next
  assume r: "reachable lv"
  then show 3: "length (barriers lv) = 3" by (rule reachable_length)
  then show "barriers lv \<noteq> []" by auto
  from 3 show "\<exists>lv''. update speedY d lv = Some lv''" by (intro update_total) simp
qed

theorem level_size_witness:
  "Level_new (\<lambda>k. d0) = Some ex_level \<and> reachable ex_level \<and> length (barriers ex_level) = 3
   \<and> update (D 10) d0 ex_level = Some ex_far \<and> length (barriers ex_far) = 3
   \<and> \<not> isVisible (hd (map (\<lambda>b. b\<lparr>yPos := dsub (yPos b) (D 10)\<rparr>) (barriers ex_level)))
   \<and> barriers ex_far = tl (map (\<lambda>b. b\<lparr>yPos := dsub (yPos b) (D 10)\<rparr>) (barriers ex_level))
        @ [\<lparr>type = Left, leftToHole = D 0.5, height = barrier_height (D 10), yPos = D (- 7.5)\<rparr>]"
proof -
  have v: "\<not> isVisible (hd (map (\<lambda>b. b\<lparr>yPos := dsub (yPos b) (D 10)\<rparr>) (barriers ex_level)))"
    by (simp add: ex_level_def isVisible_def d_iffs val_simps rnd64_consts, (simp add: rnd_defs)?)
  have t: "barriers ex_far = tl (map (\<lambda>b. b\<lparr>yPos := dsub (yPos b) (D 10)\<rparr>) (barriers ex_level))
        @ [\<lparr>type = Left, leftToHole = D 0.5, height = barrier_height (D 10), yPos = D (- 7.5)\<rparr>]"
    by (simp add: ex_level_def ex_far_def d_iffs val_simps rnd64_consts, (simp add: rnd_defs)?)
  from level_size[of "\<lambda>k. d0" "D 10" d0 ex_level ex_far] ex_level_new ex_far_update
    reachable_ex_level
  have "length (barriers ex_level) = 3 \<and> length (barriers ex_far) = 3" by simp
  with ex_level_new reachable_ex_level ex_far_update v t show ?thesis by blast
qed

end
